theory Spec2Isabelle
  imports Complex_Main
begin

section \<open>JavaScript values used by the plugin\<close>

text \<open>
  The plugin \<^verbatim>\<open>N_SpeechBubbles\<close> (version 1.1.2) runs inside RPG Maker MZ. Its functions are
  embedded here as functions on an explicit plugin state; what the host engine provides
  (the map's events, the followers, the game variables, the character sprites, text
  measurement, the timer queue) is a read-only \<open>world\<close> handed to each function.

  A JavaScript number is a finite double (the rational it denotes; the two zeros are not
  told apart), an infinity or \<open>NaN\<close>. The geometry of a window and the distance test of
  \<^verbatim>\<open>isPlayerWithinDistance\<close> are computed as the code computes them, each operation
  rounded to a double. A text length is an integer far below \<open>2\<^sup>5\<^sup>3\<close>, where the
  arithmetic of the doubles is exact; text lengths and times are integers and
  rationals.
  A thrown \<^verbatim>\<open>TypeError\<close> is a value: a function that can throw returns the error
  together with the state at the moment of the throw, since JavaScript does not roll
  back the writes made before it.
\<close>

datatype error = TypeError

datatype number = NaN | Num rat | PInf | NInf

definition truthy :: "number \<Rightarrow> bool" where
  "truthy n = (case n of NaN \<Rightarrow> False | Num r \<Rightarrow> r \<noteq> 0 | PInf \<Rightarrow> True | NInf \<Rightarrow> True)"

text \<open>The operator \<^verbatim>\<open>a || b\<close> on numbers.\<close>

definition or_else :: "number \<Rightarrow> number \<Rightarrow> number" where
  "or_else a b = (if truthy a then a else b)"

text \<open>
  \<^verbatim>\<open>a % 2\<close>: the remainder of the truncating division, which takes the sign of \<open>a\<close>.
\<close>

definition trunc :: "rat \<Rightarrow> int" where
  "trunc r = (if 0 \<le> r then \<lfloor>r\<rfloor> else \<lceil>r\<rceil>)"

definition rem2 :: "rat \<Rightarrow> rat" where
  "rem2 a = a - 2 * of_int (trunc (a / 2))"

text \<open>
  On doubles the remainder is exact (it is a double whenever \<open>a\<close> is one); the remainder
  of an infinity or of \<open>NaN\<close> is \<open>NaN\<close>.
\<close>

definition num_rem2 :: "number \<Rightarrow> number" where
  "num_rem2 a = (case a of NaN \<Rightarrow> NaN | Num x \<Rightarrow> Num (rem2 x) | PInf \<Rightarrow> NaN | NInf \<Rightarrow> NaN)"

text \<open>
  Double arithmetic (IEEE 754, as ECMAScript prescribes for \<^verbatim>\<open>+\<close>, \<^verbatim>\<open>-\<close>, \<^verbatim>\<open>*\<close> and \<^verbatim>\<open><=\<close>):
  the exact result of an operation on finite operands is rounded to a double by the
  function \<open>rnd\<close>; \<open>NaN\<close> is contagious; \<open>\<infinity> - \<infinity>\<close> and \<open>0 * \<infinity>\<close> are \<open>NaN\<close>; a comparison
  with \<open>NaN\<close> is false.
\<close>

definition num_neg :: "number \<Rightarrow> number" where
  "num_neg a = (case a of NaN \<Rightarrow> NaN | Num x \<Rightarrow> Num (- x) | PInf \<Rightarrow> NInf | NInf \<Rightarrow> PInf)"

definition num_add :: "(rat \<Rightarrow> number) \<Rightarrow> number \<Rightarrow> number \<Rightarrow> number" where
  "num_add rnd a b =
     (case a of
        NaN \<Rightarrow> NaN
      | Num x \<Rightarrow> (case b of NaN \<Rightarrow> NaN | Num y \<Rightarrow> rnd (x + y) | PInf \<Rightarrow> PInf | NInf \<Rightarrow> NInf)
      | PInf \<Rightarrow> (case b of NaN \<Rightarrow> NaN | Num y \<Rightarrow> PInf | PInf \<Rightarrow> PInf | NInf \<Rightarrow> NaN)
      | NInf \<Rightarrow> (case b of NaN \<Rightarrow> NaN | Num y \<Rightarrow> NInf | PInf \<Rightarrow> NaN | NInf \<Rightarrow> NInf))"

definition num_sub :: "(rat \<Rightarrow> number) \<Rightarrow> number \<Rightarrow> number \<Rightarrow> number" where
  "num_sub rnd a b = num_add rnd a (num_neg b)"

definition signed_infinity :: "bool \<Rightarrow> number" where
  "signed_infinity positive = (if positive then PInf else NInf)"

definition num_mul :: "(rat \<Rightarrow> number) \<Rightarrow> number \<Rightarrow> number \<Rightarrow> number" where
  "num_mul rnd a b =
     (case a of
        NaN \<Rightarrow> NaN
      | Num x \<Rightarrow>
          (case b of
             NaN \<Rightarrow> NaN
           | Num y \<Rightarrow> rnd (x * y)
           | PInf \<Rightarrow> (if x = 0 then NaN else signed_infinity (0 < x))
           | NInf \<Rightarrow> (if x = 0 then NaN else signed_infinity (x < 0)))
      | PInf \<Rightarrow>
          (case b of
             NaN \<Rightarrow> NaN
           | Num y \<Rightarrow> (if y = 0 then NaN else signed_infinity (0 < y))
           | PInf \<Rightarrow> PInf
           | NInf \<Rightarrow> NInf)
      | NInf \<Rightarrow>
          (case b of
             NaN \<Rightarrow> NaN
           | Num y \<Rightarrow> (if y = 0 then NaN else signed_infinity (y < 0))
           | PInf \<Rightarrow> NInf
           | NInf \<Rightarrow> PInf))"

text \<open>\<^verbatim>\<open>a / 2\<close>\<close>

definition num_div2 :: "(rat \<Rightarrow> number) \<Rightarrow> number \<Rightarrow> number" where
  "num_div2 rnd a = (case a of NaN \<Rightarrow> NaN | Num x \<Rightarrow> rnd (x / 2) | PInf \<Rightarrow> PInf | NInf \<Rightarrow> NInf)"

definition num_le :: "number \<Rightarrow> number \<Rightarrow> bool" where
  "num_le a b =
     (case a of
        NaN \<Rightarrow> False
      | Num x \<Rightarrow> (case b of NaN \<Rightarrow> False | Num y \<Rightarrow> x \<le> y | PInf \<Rightarrow> True | NInf \<Rightarrow> False)
      | PInf \<Rightarrow> b = PInf
      | NInf \<Rightarrow> b \<noteq> NaN)"

text \<open>
  The rounding of the doubles themselves: to the nearest number with 53 significant
  bits (exponents from \<open>-1022\<close>, below which the spacing stays \<open>2\<^sup>-\<^sup>1\<^sup>0\<^sup>7\<^sup>4\<close>), a tie to the
  even significand, and to an infinity when the rounded magnitude reaches \<open>2\<^sup>1\<^sup>0\<^sup>2\<^sup>4\<close>.
\<close>

fun ilog2 :: "nat \<Rightarrow> nat" where
  "ilog2 n = (if n < 2 then 0 else Suc (ilog2 (n div 2)))"

declare ilog2.simps [simp del]

text \<open>The exponent \<open>e\<close> with \<open>2\<^sup>e \<le> x < 2\<^sup>e\<^sup>+\<^sup>1\<close>, for a positive \<open>x\<close>.\<close>

definition floor_log2 :: "rat \<Rightarrow> int" where
  "floor_log2 x =
     (if 1 \<le> x then int (ilog2 (nat \<lfloor>x\<rfloor>))
      else (let k = ilog2 (nat \<lfloor>1 / x\<rfloor>) in if 1 / x = 2 ^ k then - int k else - int (Suc k)))"

definition binary64 :: "rat \<Rightarrow> number" where
  "binary64 x =
     (if x = 0 then Num 0
      else
        (let e = max (floor_log2 \<bar>x\<bar>) (- 1022);
             q = (if e \<le> 52 then \<bar>x\<bar> * 2 ^ nat (52 - e) else \<bar>x\<bar> / 2 ^ nat (e - 52));
             n = \<lfloor>q\<rfloor>;
             m = (if q - of_int n < 1 / 2 then n
                  else if 1 / 2 < q - of_int n then n + 1
                  else if even n then n else n + 1);
             y = (if e \<le> 52 then of_int m / 2 ^ nat (52 - e) else of_int m * 2 ^ nat (e - 52))
         in if 2 ^ 1024 \<le> y then signed_infinity (0 < x)
            else Num (if 0 < x then y else - y)))"

text \<open>The decimal numeral of a natural number, as a template literal prints it.\<close>

fun decimal :: "nat \<Rightarrow> string" where
  "decimal n =
     (if n < 10 then [''0123456789'' ! n]
      else decimal (n div 10) @ [''0123456789'' ! (n mod 10)])"

declare decimal.simps [simp del]

text \<open>\<^verbatim>\<open>String.prototype.toLowerCase\<close> on the ASCII letters.\<close>

definition lower_char :: "char \<Rightarrow> char" where
  "lower_char c =
     (case map_of (zip ''ABCDEFGHIJKLMNOPQRSTUVWXYZ'' ''abcdefghijklmnopqrstuvwxyz'') c of
        None \<Rightarrow> c
      | Some l \<Rightarrow> l)"

definition toLowerCase :: "string \<Rightarrow> string" where
  "toLowerCase s = map lower_char s"

section \<open>The host engine, as far as the plugin reads it\<close>

text \<open>
  A character is the player, a map event (with its event id) or a follower (with its
  member index). \<^verbatim>\<open>Game_Event.eventId()\<close> and \<^verbatim>\<open>Game_Follower._memberIndex\<close> are the
  constructor arguments.
\<close>

datatype character = Game_Event nat | Game_Follower nat | Game_Player

text \<open>
  A value that a property read can deliver: \<^verbatim>\<open>undefined\<close>, \<^verbatim>\<open>null\<close>, a boolean, a string, a
  number, a character (an instance of exactly one of the three classes above), or any
  other object or function, whose constructor has another name.
\<close>

datatype jsval =
  Undefined | Null | Boolean bool | Str string | Number number | Character character | Other

definition truthy_value :: "jsval \<Rightarrow> bool" where
  "truthy_value v =
     (case v of
        Undefined \<Rightarrow> False
      | Null \<Rightarrow> False
      | Boolean b \<Rightarrow> b
      | Str s \<Rightarrow> s \<noteq> []
      | Number n \<Rightarrow> truthy n
      | Character c \<Rightarrow> True
      | Other \<Rightarrow> True)"

text \<open>The operator \<^verbatim>\<open>a || b\<close> on values.\<close>

definition value_or :: "jsval \<Rightarrow> jsval \<Rightarrow> jsval" where
  "value_or a b = (if truthy_value a then a else b)"

record sprite =
  sprite_x :: number
  sprite_y :: number
  sprite_height :: number

text \<open>The text state the engine hands to \<^verbatim>\<open>flushTextState\<close>.\<close>

record textState =
  buffer :: string
  rtl :: bool

text \<open>A value of \<^verbatim>\<open>event.meta\<close>: \<^verbatim>\<open>true\<close> for a tag without a value, or the tag's text.\<close>

datatype meta_value = MetaTrue | MetaText string

record map_event =
  event_character :: character
  event_data :: "(string \<rightharpoonup> meta_value) option"

record world =
  scene :: nat
  characterSprites :: "character \<rightharpoonup> sprite"
  map_events :: "string \<Rightarrow> jsval"
  map_event_list :: "map_event list"
  followers :: "string \<Rightarrow> jsval"
  variables :: "string \<Rightarrow> jsval"
  Object_prototype :: "string \<Rightarrow> jsval"
  realX :: number
  realY :: number
  character_x :: "character \<Rightarrow> number"
  character_y :: "character \<Rightarrow> number"
  parameter_Distance :: number
  windowPadding :: int
  textSizeEx :: "string \<Rightarrow> number \<times> number"
  flushed :: "string \<Rightarrow> textState list"
  interpreter_eventId :: "nat \<Rightarrow> jsval"
  Number_of :: "string \<Rightarrow> number"
  ToString_other :: "jsval \<Rightarrow> string"

text \<open>
  \<^item> \<open>scene\<close> is \<^verbatim>\<open>SceneManager._scene\<close> and \<open>characterSprites\<close> the result of
    \<^verbatim>\<open>_spriteset._characterSprites.find(...)\<close> in it (no sprite: \<open>None\<close>).
  \<^item> \<open>map_events\<close> is the array \<^verbatim>\<open>$gameMap._events\<close>, \<open>followers\<close> the array inside
    \<^verbatim>\<open>$gamePlayer.followers()\<close> and \<open>variables\<close> the array inside \<^verbatim>\<open>$gameVariables\<close>,
    each as the function that reads a property of the array by its key: the elements
    under the decimal numerals of their indices, \<^verbatim>\<open>length\<close>, the properties inherited
    from \<^verbatim>\<open>Array.prototype\<close> and \<^verbatim>\<open>Object.prototype\<close>, and \<^verbatim>\<open>undefined\<close> elsewhere.
    \<open>Object_prototype\<close> reads the properties that an object literal inherits.
    \<open>map_event_list\<close> is \<^verbatim>\<open>$gameMap.events()\<close> with each event's data.
  \<^item> \<open>realX\<close>, \<open>realY\<close> are \<^verbatim>\<open>$gamePlayer._realX\<close>, \<^verbatim>\<open>_realY\<close>; \<open>character_x\<close>,
    \<open>character_y\<close> the tile coordinates of a character.
  \<^item> \<open>parameter_Distance\<close> is \<^verbatim>\<open>Number(parameters.Distance)\<close> as the plugin manager
    delivers it; \<open>windowPadding\<close> is \<^verbatim>\<open>$gameSystem.windowPadding()\<close>.
  \<^item> \<open>textSizeEx\<close> is \<^verbatim>\<open>Window_Base.textSizeEx\<close> (width and height of a text);
    \<open>flushed\<close> lists the text states that \<^verbatim>\<open>drawTextEx\<close> passes to
    \<^verbatim>\<open>flushTextState\<close>, in order.
  \<^item> \<open>interpreter_eventId\<close> is \<^verbatim>\<open>eventId()\<close> of an interpreter, \<open>Number_of\<close> the
    conversion \<^verbatim>\<open>Number(string)\<close>, and \<open>ToString_other\<close> the conversion to a string of
    the values whose conversion is not written out below.
\<close>

text \<open>
  The key of a property read \<^verbatim>\<open>object[v]\<close>: the value converted to a string. An integer
  below \<open>10\<^sup>2\<^sup>1\<close> in magnitude prints as its decimal numeral.
\<close>

definition ToString :: "world \<Rightarrow> jsval \<Rightarrow> string" where
  "ToString w v =
     (case v of
        Undefined \<Rightarrow> ''undefined''
      | Null \<Rightarrow> ''null''
      | Boolean b \<Rightarrow> (if b then ''true'' else ''false'')
      | Str s \<Rightarrow> s
      | Number n \<Rightarrow>
          (case n of
             NaN \<Rightarrow> ''NaN''
           | PInf \<Rightarrow> ''Infinity''
           | NInf \<Rightarrow> ''-Infinity''
           | Num r \<Rightarrow>
               (if r = of_int \<lfloor>r\<rfloor> \<and> \<bar>r\<bar> < 10 ^ 21
                then (if r < 0 then CHR ''-'' # decimal (nat (- \<lfloor>r\<rfloor>)) else decimal (nat \<lfloor>r\<rfloor>))
                else ToString_other w v))
      | Character c \<Rightarrow> ToString_other w v
      | Other \<Rightarrow> ToString_other w v)"

text \<open>\<^verbatim>\<open>parameters.Distance = Number(parameters.Distance) || 2\<close>\<close>

definition Distance :: "world \<Rightarrow> number" where
  "Distance w = or_else (parameter_Distance w) (Num 2)"

section \<open>The plugin's state\<close>

text \<open>
  A \<^verbatim>\<open>Window_Bubble\<close> object. \<open>window_x\<close>, \<open>window_y\<close> are its fields \<^verbatim>\<open>x\<close>, \<^verbatim>\<open>y\<close>;
  \<open>parent\<close> is the scene that holds it as a child (\<^verbatim>\<open>null\<close>: \<open>None\<close>); \<open>visible\<close> is the
  flag that \<^verbatim>\<open>show()\<close> and \<^verbatim>\<open>hide()\<close> set.
\<close>

record bubble =
  targetCharacter :: character
  textLength :: int
  width :: number
  height :: number
  window_x :: number
  window_y :: number
  parent :: "nat option"
  visible :: bool

text \<open>
  Objects are referred to by number: \<open>bubbles\<close> is the store of the \<^verbatim>\<open>Window_Bubble\<close>
  objects and \<open>nextBubble\<close> the next free reference. \<open>activeBubbles\<close> is the static
  dictionary \<^verbatim>\<open>Window_Bubble.activeBubbles\<close>: the constructor stores \<^verbatim>\<open>[]\<close> under a
  bubble's key before any method reads it and no entry is ever deleted, so a key never
  written reads as the empty array. \<open>timeouts\<close> are the pending \<^verbatim>\<open>setTimeout\<close> callbacks,
  each \<^verbatim>\<open>speechBubble.remove()\<close> of one bubble with the time it is due; \<open>now\<close> is the clock
  in milliseconds. \<open>waitMode\<close> is \<^verbatim>\<open>_waitMode\<close> of each interpreter.
\<close>

record state =
  bubbles :: "nat \<Rightarrow> bubble"
  nextBubble :: nat
  activeBubbles :: "string \<Rightarrow> nat list"
  speechBubbles :: "nat list"
  blockingSpeechBubble :: "nat option"
  currentInterpreter :: "nat option"
  waitMode :: "nat \<Rightarrow> string"
  timeouts :: "(rat \<times> nat) list"
  now :: rat

definition WAITMODE_BUBBLE :: string where
  "WAITMODE_BUBBLE = ''bubble''"

definition NOTETAG_BUBBLE :: string where
  "NOTETAG_BUBBLE = ''bubble''"

section \<open>Target resolution\<close>

definition getPlayer :: jsval where
  "getPlayer = Character Game_Player"

definition getEventById :: "world \<Rightarrow> jsval \<Rightarrow> jsval" where
  "getEventById w k = map_events w (ToString w k)"

definition getCurrentEvent :: "world \<Rightarrow> nat \<Rightarrow> jsval" where
  "getCurrentEvent w interpreter = map_events w (ToString w (interpreter_eventId w interpreter))"

text \<open>\<^verbatim>\<open>$gameVariables.value(id)\<close> is \<^verbatim>\<open>this._data[id] || 0\<close>.\<close>

definition variable_value :: "world \<Rightarrow> jsval \<Rightarrow> jsval" where
  "variable_value w k = value_or (variables w (ToString w k)) (Number (Num 0))"

definition getEventByVar :: "world \<Rightarrow> jsval \<Rightarrow> jsval" where
  "getEventByVar w varId = getEventById w (variable_value w varId)"

text \<open>\<^verbatim>\<open>Game_Followers.follower(index)\<close> is \<^verbatim>\<open>this._data[index]\<close>.\<close>

definition getFollowerById :: "world \<Rightarrow> jsval \<Rightarrow> jsval" where
  "getFollowerById w k = followers w (ToString w k)"

definition getFollowerByVar :: "world \<Rightarrow> jsval \<Rightarrow> jsval" where
  "getFollowerByVar w varId = getFollowerById w (variable_value w varId)"

section \<open>Window_Bubble\<close>

definition targetId :: "bubble \<Rightarrow> string" where
  "targetId B =
     (case targetCharacter B of
        Game_Event n \<Rightarrow> CHR ''e'' # decimal n
      | Game_Follower n \<Rightarrow> CHR ''f'' # decimal n
      | Game_Player \<Rightarrow> ''p'')"

definition getRectForText :: "world \<Rightarrow> string \<Rightarrow> number \<times> number" where
  "getRectForText w txt =
     (let (tw, th) = textSizeEx w txt;
          width0 = num_add binary64 tw (num_mul binary64 (Num (of_int (windowPadding w))) (Num 2));
          height0 = num_add binary64 th (num_mul binary64 (Num (of_int (windowPadding w))) (Num 2))
      in (num_add binary64 width0 (num_rem2 width0), num_add binary64 height0 (num_rem2 height0)))"

definition flushTextState :: "textState \<Rightarrow> bubble \<Rightarrow> bubble" where
  "flushTextState ts B =
     B\<lparr>textLength := textLength B + (int (length (buffer ts)) - (if rtl ts then 1 else 0))\<rparr>"

text \<open>
  The constructor. Reading \<^verbatim>\<open>this.targetId\<close> looks the name of the target's constructor
  up in a table of the three character classes and calls the entry: this throws for
  \<^verbatim>\<open>undefined\<close> and \<^verbatim>\<open>null\<close>, which have no constructor, and for every value of another
  class, which has no entry. The new object is then never returned. A new window has no
  parent and is visible.
\<close>

definition initialize :: "world \<Rightarrow> jsval \<Rightarrow> string \<Rightarrow> state \<Rightarrow> (error + nat) \<times> state" where
  "initialize w target txt s =
     (case target of
        Character c \<Rightarrow>
          (let (wd, ht) = getRectForText w txt;
               B0 = \<lparr>targetCharacter = c, textLength = 0, width = wd, height = ht,
                     window_x = Num 0, window_y = Num 0, parent = None, visible = True\<rparr>;
               B = fold flushTextState (flushed w txt) B0;
               this = nextBubble s
           in (Inr this, s\<lparr>bubbles := (bubbles s)(this := B), nextBubble := Suc this\<rparr>))
      | _ \<Rightarrow> (Inl TypeError, s))"

definition activeBubbles_of :: "state \<Rightarrow> nat \<Rightarrow> nat list" where
  "activeBubbles_of s this = activeBubbles s (targetId (bubbles s this))"

text \<open>\<^verbatim>\<open>this.activeBubbles.slice(-1)[0]\<close>: the last element, \<^verbatim>\<open>undefined\<close> for \<^verbatim>\<open>[]\<close>.\<close>

definition activeBubble :: "state \<Rightarrow> nat \<Rightarrow> nat option" where
  "activeBubble s this =
     (if activeBubbles_of s this = [] then None else Some (last (activeBubbles_of s this)))"

definition update :: "world \<Rightarrow> nat \<Rightarrow> state \<Rightarrow> error option \<times> state" where
  "update w this s =
     (let B = bubbles s this in
      case characterSprites w (targetCharacter B) of
        None \<Rightarrow> (Some TypeError, s)
      | Some sp \<Rightarrow>
          (None, s\<lparr>bubbles := (bubbles s)(this := B\<lparr>
             window_x := num_sub binary64 (sprite_x sp) (num_div2 binary64 (width B)),
             window_y := num_sub binary64
                           (num_sub binary64 (num_sub binary64 (sprite_y sp) (sprite_height sp))
                              (height B))
                           (Num 10)\<rparr>)\<rparr>))"

definition isPlayerWithinDistance :: "world \<Rightarrow> bubble \<Rightarrow> bool" where
  "isPlayerWithinDistance w B =
     (let distance = Distance w;
          xDist = num_sub binary64 (realX w) (character_x w (targetCharacter B));
          yDist = num_sub binary64 (realY w) (character_y w (targetCharacter B))
      in num_le
           (num_add binary64 (num_mul binary64 xDist xDist) (num_mul binary64 yDist yDist))
           (num_mul binary64 distance distance))"

definition isActive :: "bubble \<Rightarrow> bool" where
  "isActive B = (parent B \<noteq> None)"

definition isOtherBubbleActive :: "state \<Rightarrow> nat \<Rightarrow> bool" where
  "isOtherBubbleActive s this =
     (case activeBubble s this of None \<Rightarrow> False | Some other \<Rightarrow> other \<noteq> this)"

definition set_visible :: "bool \<Rightarrow> nat \<Rightarrow> state \<Rightarrow> state" where
  "set_visible v b s = s\<lparr>bubbles := (bubbles s)(b := (bubbles s b)\<lparr>visible := v\<rparr>)\<rparr>"

definition set_parent :: "nat option \<Rightarrow> nat \<Rightarrow> state \<Rightarrow> state" where
  "set_parent p b s = s\<lparr>bubbles := (bubbles s)(b := (bubbles s b)\<lparr>parent := p\<rparr>)\<rparr>"

text \<open>
  \<^verbatim>\<open>this.activeBubbles.remove(this)\<close> is the engine's \<^verbatim>\<open>Array.prototype.remove\<close>, which
  deletes every occurrence of the element; \<^verbatim>\<open>push\<close> appends.
\<close>

definition stack_remove :: "nat \<Rightarrow> state \<Rightarrow> state" where
  "stack_remove this s =
     s\<lparr>activeBubbles := (activeBubbles s)
         (targetId (bubbles s this) := removeAll this (activeBubbles_of s this))\<rparr>"

definition stack_push :: "nat \<Rightarrow> state \<Rightarrow> state" where
  "stack_push this s =
     s\<lparr>activeBubbles := (activeBubbles s)
         (targetId (bubbles s this) := activeBubbles_of s this @ [this])\<rparr>"

definition addTo :: "world \<Rightarrow> nat \<Rightarrow> nat \<Rightarrow> state \<Rightarrow> error option \<times> state" where
  "addTo w par this s =
     (if parent (bubbles s this) \<noteq> None then (None, s)
      else
        case update w this s of
          (Some e, s1) \<Rightarrow> (Some e, s1)
        | (None, s1) \<Rightarrow>
            (let s2 = set_parent (Some par) this s1;
                 s3 = stack_remove this s2;
                 s4 = (case activeBubble s3 this of
                         None \<Rightarrow> s3
                       | Some other \<Rightarrow> set_visible False other s3);
                 s5 = stack_push this s4
             in (None, set_visible True this s5)))"

definition remove :: "nat \<Rightarrow> state \<Rightarrow> state" where
  "remove this s =
     (if parent (bubbles s this) = None then s
      else
        (let s1 = set_parent None this s;
             s2 = stack_remove this s1
         in case activeBubble s2 this of
              None \<Rightarrow> s2
            | Some other \<Rightarrow> set_visible True other s2))"

section \<open>Scene_Map\<close>

text \<open>\<^verbatim>\<open>.replace(/\\n/g, "\n")\<close>: every backslash followed by \<^verbatim>\<open>n\<close> becomes a line feed.\<close>

fun replace_newlines :: "string \<Rightarrow> string" where
  "replace_newlines (a # b # cs) =
     (if a = CHR 0x5C \<and> b = CHR ''n'' then CHR 0x0A # replace_newlines cs
      else a # replace_newlines (b # cs))"
| "replace_newlines cs = cs"

definition has_notetag :: "map_event \<Rightarrow> bool" where
  "has_notetag e = (case event_data e of None \<Rightarrow> False | Some m \<Rightarrow> m NOTETAG_BUBBLE \<noteq> None)"

fun createBubbles :: "world \<Rightarrow> map_event list \<Rightarrow> state \<Rightarrow> error option \<times> state" where
  "createBubbles w [] s = (None, s)"
| "createBubbles w (e # es) s =
     (case event_data e of
        None \<Rightarrow> (Some TypeError, s)
      | Some m \<Rightarrow>
          (case m NOTETAG_BUBBLE of
             Some (MetaText t) \<Rightarrow>
               (case initialize w (Character (event_character e)) (replace_newlines t) s of
                  (Inl err, s1) \<Rightarrow> (Some err, s1)
                | (Inr b, s1) \<Rightarrow> createBubbles w es (s1\<lparr>speechBubbles := speechBubbles s1 @ [b]\<rparr>))
           | _ \<Rightarrow> (Some TypeError, s)))"

definition createDisplayObjects :: "world \<Rightarrow> state \<Rightarrow> error option \<times> state" where
  "createDisplayObjects w s = createBubbles w (filter has_notetag (map_event_list w)) s"

definition terminate :: "state \<Rightarrow> state" where
  "terminate s = (fold remove (speechBubbles s) s)\<lparr>speechBubbles := []\<rparr>"

section \<open>Game_Player\<close>

fun updateBubbles :: "world \<Rightarrow> nat list \<Rightarrow> state \<Rightarrow> error option \<times> state" where
  "updateBubbles w [] s = (None, s)"
| "updateBubbles w (speechBubble # rest) s =
     (if isPlayerWithinDistance w (bubbles s speechBubble) \<and> \<not> isOtherBubbleActive s speechBubble
      then
        (case addTo w (scene w) speechBubble s of
           (Some e, s1) \<Rightarrow> (Some e, s1)
         | (None, s1) \<Rightarrow> updateBubbles w rest s1)
      else updateBubbles w rest (remove speechBubble s))"

definition updateAnimation :: "world \<Rightarrow> state \<Rightarrow> error option \<times> state" where
  "updateAnimation w s = updateBubbles w (speechBubbles s) s"

section \<open>Timers\<close>

text \<open>
  \<^verbatim>\<open>setTimeout(() => speechBubble.remove(), delay)\<close> queues the callback; a delay that is
  negative, infinite or \<^verbatim>\<open>NaN\<close> counts as 0. When the clock advances, the callbacks that are due
  run in the order of their due times, and in the order they were queued where these
  are equal.
\<close>

definition timeout_delay :: "number \<Rightarrow> rat" where
  "timeout_delay d = (case d of NaN \<Rightarrow> 0 | Num r \<Rightarrow> max 0 r | PInf \<Rightarrow> 0 | NInf \<Rightarrow> 0)"

definition setTimeout :: "nat \<Rightarrow> number \<Rightarrow> state \<Rightarrow> state" where
  "setTimeout b delay s = s\<lparr>timeouts := timeouts s @ [(now s + timeout_delay delay, b)]\<rparr>"

definition due :: "rat \<Rightarrow> state \<Rightarrow> (rat \<times> nat) list" where
  "due t s = sort_key fst (filter (\<lambda>e. fst e \<le> t) (timeouts s))"

definition elapse :: "rat \<Rightarrow> state \<Rightarrow> state" where
  "elapse ms s =
     (let t = now s + ms
      in (fold (\<lambda>e. remove (snd e)) (due t s) s)
           \<lparr>timeouts := filter (\<lambda>e. \<not> fst e \<le> t) (timeouts s), now := t\<rparr>)"

section \<open>The show command\<close>

text \<open>\<^verbatim>\<open>duration || speechBubble.textLength * 150\<close>\<close>

definition bubble_duration :: "number \<Rightarrow> int \<Rightarrow> number" where
  "bubble_duration duration len = or_else duration (Num (of_int len * 150))"

definition showBubble ::
  "world \<Rightarrow> string \<Rightarrow> jsval \<Rightarrow> number \<Rightarrow> bool \<Rightarrow> state \<Rightarrow> error option \<times> state" where
  "showBubble w txt target duration isBlocking s =
     (case initialize w target txt s of
        (Inl e, s1) \<Rightarrow> (Some e, s1)
      | (Inr speechBubble, s1) \<Rightarrow>
          (case addTo w (scene w) speechBubble s1 of
             (Some e, s2) \<Rightarrow> (Some e, s2)
           | (None, s2) \<Rightarrow>
               (let s3 = setTimeout speechBubble
                           (bubble_duration duration (textLength (bubbles s2 speechBubble))) s2
                in if isBlocking then
                     (let s4 = s3\<lparr>blockingSpeechBubble := Some speechBubble\<rparr>
                      in case currentInterpreter s4 of
                           None \<Rightarrow> (Some TypeError, s4)
                         | Some i \<Rightarrow> (None, s4\<lparr>waitMode := (waitMode s4)(i := WAITMODE_BUBBLE)\<rparr>))
                   else (None, s3))))"

record args =
  arg_text :: string
  targetSelector :: string
  targetSelectorId :: string
  durationMs :: string
  isBlocking_arg :: string

text \<open>
  The object literal of the command, as the list of its own keys and values. The read
  \<^verbatim>\<open>{...}[args.targetSelector]\<close> gives the entry of an own key and, for any other
  selector, what the literal inherits from \<^verbatim>\<open>Object.prototype\<close>.
\<close>

definition selector_table :: "world \<Rightarrow> nat \<Rightarrow> args \<Rightarrow> (string \<times> jsval) list" where
  "selector_table w this a =
     [(''This event'', getCurrentEvent w this),
      (''Player'', getPlayer),
      (''Event'', getEventById w (Str (targetSelectorId a))),
      (''Event by variable'', getEventByVar w (Str (targetSelectorId a))),
      (''Follower'', getFollowerById w (Str (targetSelectorId a))),
      (''Follower by variable'', getFollowerByVar w (Str (targetSelectorId a)))]"

definition selected :: "world \<Rightarrow> nat \<Rightarrow> args \<Rightarrow> jsval" where
  "selected w this a =
     (case map_of (selector_table w this a) (targetSelector a) of
        Some v \<Rightarrow> v
      | None \<Rightarrow> Object_prototype w (targetSelector a))"

definition command_target :: "world \<Rightarrow> nat \<Rightarrow> args \<Rightarrow> jsval" where
  "command_target w this a =
     value_or (selected w this a) (getEventById w (Str (targetSelector a)))"

definition command_show :: "world \<Rightarrow> nat \<Rightarrow> args \<Rightarrow> state \<Rightarrow> error option \<times> state" where
  "command_show w this a s =
     (let s1 = s\<lparr>currentInterpreter := Some this\<rparr>;
          target = command_target w this a;
          duration = Number_of w (durationMs a);
          isBlocking = (toLowerCase (isBlocking_arg a) = ''true'')
      in showBubble w (arg_text a) target duration isBlocking s1)"

section \<open>Game_Interpreter\<close>

text \<open>
  \<open>host\<close> is the engine's own \<^verbatim>\<open>updateWaitMode\<close>, called for every other wait mode.
  \<^verbatim>\<open>blockingSpeechBubble.isActive()\<close> throws while the variable is still \<^verbatim>\<open>null\<close>.
\<close>

definition updateWaitMode ::
  "(nat \<Rightarrow> state \<Rightarrow> (error + bool) \<times> state) \<Rightarrow> nat \<Rightarrow> state \<Rightarrow> (error + bool) \<times> state" where
  "updateWaitMode host this s =
     (if waitMode s this = WAITMODE_BUBBLE then
        (case blockingSpeechBubble s of
           None \<Rightarrow> (Inl TypeError, s)
         | Some b \<Rightarrow> (Inr (isActive (bubbles s b)), s))
      else host this s)"

section \<open>Invariants of the plugin's state\<close>

text \<open>
  A reference is allocated when the constructor has returned it. The array kept for a
  target under \<open>activeBubbles\<close> holds, without repetition, exactly the allocated bubbles of
  that target that have a parent, and of these exactly the last one has its \<open>visible\<close>
  flag set.
\<close>

definition allocated :: "state \<Rightarrow> nat \<Rightarrow> bool" where
  "allocated s b = (b < nextBubble s)"

definition stack_inv :: "state \<Rightarrow> bool" where
  "stack_inv s =
     (\<forall>k. distinct (activeBubbles s k)
        \<and> (\<forall>b. (b \<in> set (activeBubbles s k)) =
                 (allocated s b \<and> parent (bubbles s b) \<noteq> None \<and> targetId (bubbles s b) = k))
        \<and> (\<forall>b \<in> set (activeBubbles s k). visible (bubbles s b) = (b = last (activeBubbles s k))))"

text \<open>
  The references the plugin keeps (the note-tag bubbles, the bubbles of pending timers)
  are allocated.
\<close>

definition refs_ok :: "state \<Rightarrow> bool" where
  "refs_ok s =
     ((\<forall>b \<in> set (speechBubbles s). allocated s b) \<and> (\<forall>e \<in> set (timeouts s). allocated s (snd e)))"

section \<open>Runs of the plugin\<close>

text \<open>
  A state is initial when no bubble has been constructed. The reachable states are those
  the plugin's entry points produce from an initial state: the show command,
  \<open>showBubble\<close> called from a script, the creation and termination of a map scene, the
  player's animation update, the passing of time with its timers, and a single \<open>addTo\<close>
  or \<open>remove\<close> of a bubble that exists.
\<close>

definition initial :: "state \<Rightarrow> bool" where
  "initial s =
     (nextBubble s = 0 \<and> (\<forall>k. activeBubbles s k = []) \<and> speechBubbles s = [] \<and> timeouts s = []
      \<and> blockingSpeechBubble s = None \<and> currentInterpreter s = None)"

inductive reachable :: "state \<Rightarrow> bool" where
  start: "initial s \<Longrightarrow> reachable s"
| command: "reachable s \<Longrightarrow> reachable (snd (command_show w i a s))"
| script: "reachable s \<Longrightarrow> reachable (snd (showBubble w t target duration blocking s))"
| load: "reachable s \<Longrightarrow> reachable (snd (createDisplayObjects w s))"
| unload: "reachable s \<Longrightarrow> reachable (terminate s)"
| tick: "reachable s \<Longrightarrow> reachable (snd (updateAnimation w s))"
| time: "reachable s \<Longrightarrow> 0 \<le> ms \<Longrightarrow> reachable (elapse ms s)"
| attach: "reachable s \<Longrightarrow> allocated s b \<Longrightarrow> reachable (snd (addTo w p b s))"
| detach: "reachable s \<Longrightarrow> allocated s b \<Longrightarrow> reachable (remove b s)"

text \<open>
  The events of a run in which nothing but the engine drives the plugin: commands, scene
  creation and termination, animation updates, and time passing.
\<close>

datatype step = Command world nat args | Load world | Unload | Tick world | Elapse rat

fun do_step :: "step \<Rightarrow> state \<Rightarrow> state" where
  "do_step (Command w i a) s = snd (command_show w i a s)"
| "do_step (Load w) s = snd (createDisplayObjects w s)"
| "do_step Unload s = terminate s"
| "do_step (Tick w) s = snd (updateAnimation w s)"
| "do_step (Elapse ms) s = elapse ms s"

definition run :: "step list \<Rightarrow> state \<Rightarrow> state" where
  "run steps s = fold do_step steps s"

fun passes :: "step \<Rightarrow> rat" where
  "passes (Elapse ms) = ms"
| "passes _ = 0"

definition elapsed :: "step list \<Rightarrow> rat" where
  "elapsed steps = sum_list (map passes steps)"

fun is_Elapse :: "step \<Rightarrow> bool" where
  "is_Elapse (Elapse ms) = True"
| "is_Elapse _ = False"

fun is_blocking :: "step \<Rightarrow> bool" where
  "is_blocking (Command w i a) = (toLowerCase (isBlocking_arg a) = ''true'')"
| "is_blocking _ = False"

text \<open>
  What holds of a command bubble \<open>b\<close> whose timer is due at \<open>T\<close>, throughout a run: it is no
  note-tag bubble, every timer for it is due at \<open>T\<close>, its timer is pending while it has a
  parent, and once it has none the time \<open>T\<close> has come.
\<close>

definition tracked :: "nat \<Rightarrow> rat \<Rightarrow> state \<Rightarrow> bool" where
  "tracked b T s =
     (allocated s b \<and> b \<notin> set (speechBubbles s)
      \<and> (\<forall>e \<in> set (timeouts s). snd e = b \<longrightarrow> fst e = T)
      \<and> (parent (bubbles s b) \<noteq> None \<longrightarrow> (T, b) \<in> set (timeouts s))
      \<and> (parent (bubbles s b) = None \<longrightarrow> T \<le> now s))"

text \<open>A bubble is shown when it exists, is a child of a scene and has its \<open>visible\<close> flag set.\<close>

definition shown :: "state \<Rightarrow> nat \<Rightarrow> bool" where
  "shown s b = (allocated s b \<and> isActive (bubbles s b) \<and> visible (bubbles s b))"

text \<open>
  \<open>frame s s'\<close>: the two states differ at most in the parents, positions and visibility of
  bubbles and in the arrays of \<open>activeBubbles\<close>.
\<close>

definition frame :: "state \<Rightarrow> state \<Rightarrow> bool" where
  "frame s s' =
     (nextBubble s' = nextBubble s \<and> speechBubbles s' = speechBubbles s
      \<and> blockingSpeechBubble s' = blockingSpeechBubble s
      \<and> currentInterpreter s' = currentInterpreter s \<and> waitMode s' = waitMode s
      \<and> timeouts s' = timeouts s \<and> now s' = now s
      \<and> (\<forall>x. targetCharacter (bubbles s' x) = targetCharacter (bubbles s x))
      \<and> (\<forall>x. textLength (bubbles s' x) = textLength (bubbles s x)))"

section \<open>Example data\<close>

definition no_bubble :: bubble where
  "no_bubble = \<lparr>targetCharacter = Game_Player, textLength = 0, width = Num 0, height = Num 0,
       window_x = Num 0, window_y = Num 0, parent = None, visible = False\<rparr>"

text \<open>The state when the plugin has been loaded: no bubble exists.\<close>

definition initial_state :: state where
  "initial_state = \<lparr>bubbles = (\<lambda>_. no_bubble), nextBubble = 0, activeBubbles = (\<lambda>_. []),
       speechBubbles = [], blockingSpeechBubble = None, currentInterpreter = None,
       waitMode = (\<lambda>_. []), timeouts = [], now = 0\<rparr>"

text \<open>
  The properties that every object inherits from \<^verbatim>\<open>Object.prototype\<close>, and an array
  with the given elements and length, which inherits the methods of \<^verbatim>\<open>Array.prototype\<close>
  (those of the language and the four that the engine adds) as well.
\<close>

definition Object_prototype_names :: "string list" where
  "Object_prototype_names =
     [''constructor'', ''hasOwnProperty'', ''isPrototypeOf'', ''propertyIsEnumerable'',
      ''toLocaleString'', ''toString'', ''valueOf'', ''__proto__'', ''__defineGetter__'',
      ''__defineSetter__'', ''__lookupGetter__'', ''__lookupSetter__'']"

definition Array_prototype_names :: "string list" where
  "Array_prototype_names =
     [''at'', ''concat'', ''copyWithin'', ''entries'', ''every'', ''fill'', ''filter'', ''find'',
      ''findIndex'', ''findLast'', ''findLastIndex'', ''flat'', ''flatMap'', ''forEach'',
      ''includes'', ''indexOf'', ''join'', ''keys'', ''lastIndexOf'', ''map'', ''pop'', ''push'',
      ''reduce'', ''reduceRight'', ''reverse'', ''shift'', ''slice'', ''some'', ''sort'',
      ''splice'', ''toReversed'', ''toSorted'', ''toSpliced'', ''unshift'', ''values'', ''with'',
      ''clone'', ''contains'', ''equals'', ''remove'']"

definition object_property :: "string \<Rightarrow> jsval" where
  "object_property k = (if k \<in> set Object_prototype_names then Other else Undefined)"

definition array_property :: "(string \<times> jsval) list \<Rightarrow> nat \<Rightarrow> string \<Rightarrow> jsval" where
  "array_property elements len k =
     (case map_of elements k of
        Some v \<Rightarrow> v
      | None \<Rightarrow>
          (if k = ''length'' then Number (Num (of_nat len))
           else if k \<in> set Array_prototype_names then Other
           else object_property k))"

text \<open>
  A map with the player at tile (8, 6), three followers and one event, number 7, at tile
  (10, 6) with the note tag \<^verbatim>\<open><bubble:Fine weather today!>\<close>. Game variable 1 holds 7.
  Text is measured at 11 pixels a character and 35 pixels high, and drawn in one piece.
\<close>

definition demo_world :: world where
  "demo_world = \<lparr>scene = 1,
       characterSprites = [Game_Player \<mapsto> \<lparr>sprite_x = Num 408, sprite_y = Num 312, sprite_height = Num 48\<rparr>,
                           Game_Follower 1 \<mapsto> \<lparr>sprite_x = Num 408, sprite_y = Num 312, sprite_height = Num 48\<rparr>,
                           Game_Follower 2 \<mapsto> \<lparr>sprite_x = Num 408, sprite_y = Num 312, sprite_height = Num 48\<rparr>,
                           Game_Follower 3 \<mapsto> \<lparr>sprite_x = Num 408, sprite_y = Num 312, sprite_height = Num 48\<rparr>,
                           Game_Event 7 \<mapsto> \<lparr>sprite_x = Num 504, sprite_y = Num 312, sprite_height = Num 48\<rparr>],
       map_events = array_property [(''7'', Character (Game_Event 7))] 8,
       map_event_list = [\<lparr>event_character = Game_Event 7,
                           event_data = Some [''bubble'' \<mapsto> MetaText ''Fine weather today!'']\<rparr>],
       followers = array_property [(''0'', Character (Game_Follower 1)),
                                   (''1'', Character (Game_Follower 2)),
                                   (''2'', Character (Game_Follower 3))] 3,
       variables = array_property [(''1'', Number (Num 7))] 2,
       Object_prototype = object_property,
       realX = Num 8, realY = Num 6,
       character_x = (\<lambda>c. if c = Game_Event 7 then Num 10 else Num 8),
       character_y = (\<lambda>c. Num 6),
       parameter_Distance = Num 2,
       windowPadding = 12,
       textSizeEx = (\<lambda>t. (Num (of_nat (length t) * 11), Num 35)),
       flushed = (\<lambda>t. [\<lparr>buffer = t, rtl = False\<rparr>]),
       interpreter_eventId = (\<lambda>_. Number (Num 7)),
       Number_of = (\<lambda>t. if t = ''0'' then Num 0 else if t = ''2000'' then Num 2000 else NaN),
       ToString_other = (\<lambda>_. ''[object Object]'')\<rparr>"

definition demo_args :: args where
  "demo_args = \<lparr>arg_text = ''0123456789'', targetSelector = ''This event'',
       targetSelectorId = ''1'', durationMs = ''0'', isBlocking_arg = ''true''\<rparr>"

text \<open>The state after the show command of \<open>demo_args\<close> in the initial state.\<close>

definition demo_shown :: state where
  "demo_shown = snd (command_show demo_world 0 demo_args initial_state)"

text \<open>Two bubbles for event 7, constructed and not yet attached.\<close>

definition demo_two :: state where
  "demo_two = snd (initialize demo_world (Character (Game_Event 7)) ''Second''
                (snd (initialize demo_world (Character (Game_Event 7)) ''First'' initial_state)))"






text \<open>
  The same map after a script has stored event 7 in the array of the map's events under
  the key \<^verbatim>\<open>Follower\<close> as well.
\<close>

definition demo_tagged_world :: world where
  "demo_tagged_world =
     demo_world\<lparr>map_events := (map_events demo_world)(''Follower'' := Character (Game_Event 7))\<rparr>"

definition demo_crowded :: state where
  "demo_crowded = snd (command_show demo_world 0 demo_args demo_shown)"

section \<open>Facts about the numbers\<close>

lemma trunc_half: "trunc (of_int k / 2) = (if 0 \<le> k then k div 2 else - ((- k) div 2))"
proof -
  have f: "\<lfloor>(of_int k :: rat) / 2\<rfloor> = k div 2"
    using floor_divide_of_int_eq [of k 2, where ?'a = rat] by simp
  have c: "\<lceil>(of_int k :: rat) / 2\<rceil> = - ((- k) div 2)"
    using floor_divide_of_int_eq [of "- k" 2, where ?'a = rat] by (simp add: ceiling_def)
  have z: "(0 \<le> (of_int k :: rat) / 2) = (0 \<le> k)" by simp
  show ?thesis unfolding trunc_def z using f c by simp
qed

lemma rem2_of_int:
  "rem2 (of_int k) = 0 \<and> even k \<or> rem2 (of_int k) = 1 \<and> odd k \<and> 0 \<le> k
     \<or> rem2 (of_int k) = - 1 \<and> odd k \<and> k < 0"
proof -
  define r where "r = k - 2 * (if 0 \<le> k then k div 2 else - ((- k) div 2))"
  have "rem2 (of_int k) = of_int r"
    unfolding rem2_def trunc_half r_def by simp
  moreover have "r = 0 \<and> even k \<or> r = 1 \<and> odd k \<and> 0 \<le> k \<or> r = - 1 \<and> odd k \<and> k < 0"
    unfolding r_def by (cases "0 \<le> k") presburger+
  ultimately show ?thesis by auto
qed

lemma floor_rat_numeral: "\<lfloor>(numeral a :: rat) / numeral b\<rfloor> = numeral a div numeral b"
  using floor_divide_of_int_eq [of "numeral a" "numeral b", where ?'a = rat] by simp

lemma ilog2_numeral:
  "ilog2 (numeral k) = (if numeral k < (2::nat) then 0 else Suc (ilog2 (numeral k div 2)))"
  by (subst ilog2.simps) simp

lemma ilog2_small: "ilog2 0 = 0" "ilog2 1 = 0" "ilog2 (Suc 0) = 0"
  by (simp_all add: ilog2.simps)

lemmas double_defs =
  num_sub_def num_add_def num_neg_def num_mul_def num_div2_def num_rem2_def num_le_def
  signed_infinity_def binary64_def floor_log2_def ilog2_numeral ilog2_small floor_rat_numeral
  rem2_def trunc_def Let_def

lemma ilog2_bounds: "0 < n \<Longrightarrow> 2 ^ ilog2 n \<le> n \<and> n < 2 ^ Suc (ilog2 n)"
proof (induction n rule: ilog2.induct)
  case (1 n)
  show ?case
  proof (cases "n < 2")
    case True
    with "1.prems" have "n = 1" by simp
    then show ?thesis by (simp add: ilog2.simps)
  next
    case False
    then have p: "0 < n div 2" by simp
    define m where "m = (2::nat) ^ ilog2 (n div 2)"
    have IH: "m \<le> n div 2" "n div 2 < 2 * m"
      using "1.IH" [OF False p] by (simp_all add: m_def)
    have e: "ilog2 n = Suc (ilog2 (n div 2))" using False by (subst ilog2.simps) simp
    have "2 * m \<le> n" "n < 2 * (2 * m)" using IH by linarith+
    then show ?thesis unfolding e by (simp add: m_def)
  qed
qed

lemma binary64_int:
  assumes "\<bar>k\<bar> \<le> 2 ^ 53"
  shows "binary64 (of_int k) = Num (of_int k)"
proof (cases "\<bar>k\<bar> = 2 ^ 53")
  case True
  then consider "k = 2 ^ 53" | "k = - (2 ^ 53)" by (cases "0 \<le> k") auto
  then show ?thesis by cases (simp_all add: double_defs)
next
  case False
  show ?thesis
  proof (cases "k = 0")
    case True
    then show ?thesis by (simp add: binary64_def)
  next
    case nz: False
    define n where "n = nat \<bar>k\<bar>"
    have n: "0 < n" "n < 2 ^ 53" using assms False nz by (simp_all add: n_def nat_less_iff)
    have x: "\<bar>of_int k :: rat\<bar> = of_nat n" by (simp add: n_def)
    define e where "e = ilog2 n"
    have eb: "2 ^ e \<le> n" using ilog2_bounds [OF n(1)] by (simp add: e_def)
    have lt: "(2::nat) ^ e < 2 ^ 53" using eb n(2) by linarith
    have "e < 53"
    proof (rule power_less_imp_less_exp)
      show "1 < (2::nat)" by simp
      show "(2::nat) ^ e < 2 ^ 53" by (rule lt)
    qed
    then have e52: "e \<le> 52" by simp
    have fl: "floor_log2 (of_nat n :: rat) = int e"
      using n(1) unfolding floor_log2_def by (simp add: e_def)
    have q: "(of_nat n :: rat) * 2 ^ (52 - e) = of_int (int n * 2 ^ (52 - e))" by simp
    have q2: "rat_of_int (int n * 2 ^ (52 - e)) / 2 ^ (52 - e) = of_nat n" by simp
    have big: "(of_nat n :: rat) < 2 ^ 1024"
    proof -
      have "(of_nat n :: rat) < of_nat (2 ^ 53)" using n(2) by (simp only: of_nat_less_iff)
      also have "\<dots> < 2 ^ 1024" by simp
      finally show ?thesis .
    qed
    have s: "0 < k \<Longrightarrow> (of_nat n :: rat) = of_int k" "\<not> 0 < k \<Longrightarrow> - (of_nat n :: rat) = of_int k"
      using nz by (auto simp: n_def)
    show ?thesis
      unfolding binary64_def x fl
      using e52 nz big s by (simp add: Let_def nat_diff_distrib' q q2 del: of_int_mult of_int_power)
  qed
qed

text \<open>
  The rounding at a tenth, a third, ties above \<open>2\<^sup>5\<^sup>3\<close> and among the subnormal numbers, and
  at the largest double and beyond.
\<close>

lemma binary64_examples:
  "binary64 (1 / 10) = Num (3602879701896397 / 2 ^ 55)"
  "binary64 (1 / 3) = Num (6004799503160661 / 2 ^ 54)"
  "binary64 (- (7 / 5)) = Num (- (3152519739159347 / 2 ^ 51))"
  "binary64 (2 ^ 53 + 1) = Num (2 ^ 53)"
  "binary64 (2 ^ 53 + 3) = Num (2 ^ 53 + 4)"
  "binary64 (3 / 2 ^ 1075) = Num (1 / 2 ^ 1073)"
  "binary64 (2 ^ 1024 - 2 ^ 970) = PInf"
  "binary64 (2 ^ 1024 - 2 ^ 970 - 1) = Num (9007199254740991 * 2 ^ 971)"
  "binary64 (- (2 ^ 1024)) = NInf"
  by (simp_all add: double_defs)

lemma rect_dimension:
  assumes "0 \<le> i" and "i + 2 * \<bar>p\<bar> < 2 ^ 53"
  shows "let width0 = num_add binary64 (Num (of_int i)) (num_mul binary64 (Num (of_int p)) (Num 2))
         in num_add binary64 width0 (num_rem2 width0)
            = Num (of_int (i + 2 * p + (if even i then 0 else if 0 \<le> i + 2 * p then 1 else - 1)))"
proof -
  let ?k = "i + 2 * p"
  have pb: "\<bar>2 * p\<bar> \<le> 2 ^ 53" and kb: "\<bar>?k\<bar> < 2 ^ 53" using assms by linarith+
  have "num_mul binary64 (Num (of_int p)) (Num 2) = binary64 (of_int (2 * p))"
    by (simp add: num_mul_def mult.commute)
  then have pad: "num_mul binary64 (Num (of_int p)) (Num 2) = Num (of_int (2 * p))"
    using binary64_int [OF pb] by simp
  have "num_add binary64 (Num (of_int i)) (Num (of_int (2 * p))) = binary64 (of_int ?k)"
    by (simp add: num_add_def)
  then have w0: "num_add binary64 (Num (of_int i)) (Num (of_int (2 * p))) = Num (of_int ?k)"
    using binary64_int [of ?k] kb by simp
  have par: "even ?k = even i" by simp
  have fin: "num_add binary64 (Num (of_int ?k)) (Num (of_int r)) = Num (of_int (?k + r))"
    if "\<bar>r\<bar> \<le> 1" for r
  proof -
    have "\<bar>?k + r\<bar> \<le> 2 ^ 53" using kb that by linarith
    then show ?thesis using binary64_int [of "?k + r"] by (simp add: num_add_def)
  qed
  consider "rem2 (of_int ?k) = 0" "even ?k" | "rem2 (of_int ?k) = 1" "odd ?k" "0 \<le> ?k"
    | "rem2 (of_int ?k) = - 1" "odd ?k" "?k < 0"
    using rem2_of_int [of ?k] by blast
  then have "num_add binary64 (Num (of_int ?k)) (num_rem2 (Num (of_int ?k)))
      = Num (of_int (?k + (if even i then 0 else if 0 \<le> ?k then 1 else - 1)))"
  proof cases
    case 1
    then show ?thesis using fin [of 0] par by (simp add: num_rem2_def)
  next
    case 2
    then show ?thesis using fin [of 1] par by (simp add: num_rem2_def)
  next
    case 3
    then show ?thesis using fin [of "- 1"] par by (simp add: num_rem2_def)
  qed
  then show ?thesis unfolding Let_def pad w0 .
qed

section \<open>Facts about the constructor\<close>

lemma fold_flushTextState:
  "fold flushTextState ts B =
     B\<lparr>textLength := textLength B + (\<Sum>t\<leftarrow>ts. int (length (buffer t)) - (if rtl t then 1 else 0))\<rparr>"
  by (induction ts arbitrary: B) (simp_all add: flushTextState_def)

lemma target_cases [case_names None Some]:
  obtains (None) "\<forall>c. target \<noteq> Character c" | (Some) c where "target = Character c"
  by (cases target) auto

lemma initialize_None:
  "\<forall>c. target \<noteq> Character c \<Longrightarrow> initialize w target txt s = (Inl TypeError, s)"
  by (cases target) (simp_all add: initialize_def)

lemma initialize_Some:
  "initialize w (Character c) txt s =
     (Inr (nextBubble s),
      s\<lparr>bubbles := (bubbles s)(nextBubble s :=
           \<lparr>targetCharacter = c,
            textLength = (\<Sum>t\<leftarrow>flushed w txt. int (length (buffer t)) - (if rtl t then 1 else 0)),
            width = fst (getRectForText w txt), height = snd (getRectForText w txt),
            window_x = Num 0, window_y = Num 0, parent = None, visible = True\<rparr>),
        nextBubble := Suc (nextBubble s)\<rparr>)"
  by (simp add: initialize_def fold_flushTextState Let_def split: prod.splits)

section \<open>Facts about attaching and detaching\<close>

lemma targetId_update [simp]:
  "targetId (B\<lparr>visible := v\<rparr>) = targetId B"
  "targetId (B\<lparr>parent := p\<rparr>) = targetId B"
  "targetId (B\<lparr>window_x := x\<rparr>) = targetId B"
  "targetId (B\<lparr>window_y := y\<rparr>) = targetId B"
  by (simp_all add: targetId_def)

lemma addTo_attached: "parent (bubbles s b) \<noteq> None \<Longrightarrow> addTo w p b s = (None, s)"
  by (simp add: addTo_def)

lemma addTo_no_sprite:
  "parent (bubbles s b) = None \<Longrightarrow> characterSprites w (targetCharacter (bubbles s b)) = None
   \<Longrightarrow> addTo w p b s = (Some TypeError, s)"
  by (simp add: addTo_def update_def)

lemma targetId_cong: "targetCharacter B = targetCharacter B' \<Longrightarrow> targetId B = targetId B'"
  by (simp add: targetId_def)

lemma addTo_detached:
  assumes "parent (bubbles s b) = None"
    and "characterSprites w (targetCharacter (bubbles s b)) \<noteq> None"
  shows "fst (addTo w p b s) = None"
    and "parent (bubbles (snd (addTo w p b s)) x) = (if x = b then Some p else parent (bubbles s x))"
    and "activeBubbles (snd (addTo w p b s)) k =
          (if k = targetId (bubbles s b) then removeAll b (activeBubbles s k) @ [b] else activeBubbles s k)"
    and "visible (bubbles (snd (addTo w p b s)) x) =
          (if x = b then True
           else if removeAll b (activeBubbles s (targetId (bubbles s b))) \<noteq> []
                 \<and> x = last (removeAll b (activeBubbles s (targetId (bubbles s b)))) then False
           else visible (bubbles s x))"
  using assms
  by (auto simp: addTo_def update_def Let_def set_parent_def set_visible_def stack_remove_def
      stack_push_def activeBubble_def activeBubbles_of_def split: option.splits)

lemma addTo_frame:
  "nextBubble (snd (addTo w p b s)) = nextBubble s"
  "speechBubbles (snd (addTo w p b s)) = speechBubbles s"
  "blockingSpeechBubble (snd (addTo w p b s)) = blockingSpeechBubble s"
  "currentInterpreter (snd (addTo w p b s)) = currentInterpreter s"
  "waitMode (snd (addTo w p b s)) = waitMode s"
  "timeouts (snd (addTo w p b s)) = timeouts s"
  "now (snd (addTo w p b s)) = now s"
  "targetCharacter (bubbles (snd (addTo w p b s)) x) = targetCharacter (bubbles s x)"
  "textLength (bubbles (snd (addTo w p b s)) x) = textLength (bubbles s x)"
  by (auto simp: addTo_def update_def Let_def set_parent_def set_visible_def stack_remove_def
      stack_push_def activeBubble_def activeBubbles_of_def split: option.splits)

lemma addTo_targetId: "targetId (bubbles (snd (addTo w p b s)) x) = targetId (bubbles s x)"
  by (rule targetId_cong) (rule addTo_frame)

lemma addTo_other_parent:
  "x \<noteq> b \<Longrightarrow> parent (bubbles (snd (addTo w p b s)) x) = parent (bubbles s x)"
  by (auto simp: addTo_def update_def Let_def set_parent_def set_visible_def stack_remove_def
      stack_push_def activeBubble_def activeBubbles_of_def split: option.splits)

lemma remove_detached: "parent (bubbles s b) = None \<Longrightarrow> remove b s = s"
  by (simp add: remove_def)

lemma remove_attached:
  assumes "parent (bubbles s b) \<noteq> None"
  shows "parent (bubbles (remove b s) x) = (if x = b then None else parent (bubbles s x))"
    and "activeBubbles (remove b s) k =
          (if k = targetId (bubbles s b) then removeAll b (activeBubbles s k) else activeBubbles s k)"
    and "visible (bubbles (remove b s) x) =
          (if removeAll b (activeBubbles s (targetId (bubbles s b))) \<noteq> []
              \<and> x = last (removeAll b (activeBubbles s (targetId (bubbles s b)))) then True
           else visible (bubbles s x))"
  using assms
  by (auto simp: remove_def Let_def set_parent_def set_visible_def stack_remove_def
      activeBubble_def activeBubbles_of_def split: option.splits)

lemma remove_parent:
  "parent (bubbles (remove b s) x) = (if x = b then None else parent (bubbles s x))"
  by (cases "parent (bubbles s b) = None") (auto simp: remove_detached remove_attached)

lemma remove_frame:
  "nextBubble (remove b s) = nextBubble s"
  "speechBubbles (remove b s) = speechBubbles s"
  "blockingSpeechBubble (remove b s) = blockingSpeechBubble s"
  "currentInterpreter (remove b s) = currentInterpreter s"
  "waitMode (remove b s) = waitMode s"
  "timeouts (remove b s) = timeouts s"
  "now (remove b s) = now s"
  "targetCharacter (bubbles (remove b s) x) = targetCharacter (bubbles s x)"
  "textLength (bubbles (remove b s) x) = textLength (bubbles s x)"
  by (auto simp: remove_def Let_def set_parent_def set_visible_def stack_remove_def
      activeBubble_def activeBubbles_of_def split: option.splits)

lemma remove_targetId: "targetId (bubbles (remove b s) x) = targetId (bubbles s x)"
  by (rule targetId_cong) (rule remove_frame)

lemma fold_remove_speechBubbles: "speechBubbles (fold remove bs s) = speechBubbles s"
  by (induction bs arbitrary: s) (simp_all add: remove_frame)

lemma fold_remove_parent:
  "parent (bubbles (fold remove bs s) x) = (if x \<in> set bs then None else parent (bubbles s x))"
  by (induction bs arbitrary: s) (auto simp: remove_parent)

section \<open>Facts about the invariants and about runs\<close>

lemma stack_invD:
  assumes "stack_inv s"
  shows "distinct (activeBubbles s k)"
    and "(b \<in> set (activeBubbles s k)) =
           (allocated s b \<and> parent (bubbles s b) \<noteq> None \<and> targetId (bubbles s b) = k)"
    and "b \<in> set (activeBubbles s k) \<Longrightarrow> visible (bubbles s b) = (b = last (activeBubbles s k))"
  using assms unfolding stack_inv_def by blast+

lemma stack_inv_addTo:
  assumes inv: "stack_inv s" and al: "allocated s b"
  shows "stack_inv (snd (addTo w p b s))"
proof (cases "parent (bubbles s b) = None \<and> characterSprites w (targetCharacter (bubbles s b)) \<noteq> None")
  case False
  then have "snd (addTo w p b s) = s"
    by (cases "parent (bubbles s b) = None") (auto simp: addTo_attached addTo_no_sprite)
  with inv show ?thesis by simp
next
  case True
  then have d: "parent (bubbles s b) = None" and sp: "characterSprites w (targetCharacter (bubbles s b)) \<noteq> None"
    by auto
  let ?s = "snd (addTo w p b s)"
  let ?k = "targetId (bubbles s b)"
  note P = addTo_detached [OF d sp]
  have notin: "b \<notin> set (activeBubbles s k)" for k
    using stack_invD(2) [OF inv, of b k] d by simp
  have rm: "removeAll b (activeBubbles s k) = activeBubbles s k" for k
    using notin [of k] by (rule removeAll_id)
  have st: "activeBubbles ?s k = (if k = ?k then activeBubbles s k @ [b] else activeBubbles s k)" for k
    using P(3) [of p k] by (simp add: rm)
  have vis: "visible (bubbles ?s x) =
      (if x = b then True else if activeBubbles s ?k \<noteq> [] \<and> x = last (activeBubbles s ?k) then False
       else visible (bubbles s x))" for x
    using P(4) [of p x] by (simp add: rm)
  have al': "allocated ?s x = allocated s x" for x
    by (simp add: allocated_def addTo_frame)
  show ?thesis
    unfolding stack_inv_def
  proof (intro allI conjI ballI)
    fix k show "distinct (activeBubbles ?s k)"
      using stack_invD(1) [OF inv, of k] notin [of k] by (auto simp: st)
  next
    fix k x
    show "(x \<in> set (activeBubbles ?s k)) =
           (allocated ?s x \<and> parent (bubbles ?s x) \<noteq> None \<and> targetId (bubbles ?s x) = k)"
      using stack_invD(2) [OF inv, of x k] al
      by (auto simp: st al' P(2) addTo_targetId)
  next
    fix k x assume x: "x \<in> set (activeBubbles ?s k)"
    show "visible (bubbles ?s x) = (x = last (activeBubbles ?s k))"
    proof (cases "k = ?k")
      case False
      with x have xin: "x \<in> set (activeBubbles s k)" by (simp add: st)
      then have "targetId (bubbles s x) = k" using stack_invD(2) [OF inv, of x k] by simp
      with False have "x \<noteq> b" "x \<notin> set (activeBubbles s ?k)"
        using stack_invD(2) [OF inv, of x ?k] by auto
      then have "visible (bubbles ?s x) = visible (bubbles s x)"
        using vis [of x] by auto
      with False xin show ?thesis using stack_invD(3) [OF inv xin] by (simp add: st)
    next
      case True
      show ?thesis
      proof (cases "x = b")
        case True
        then show ?thesis using \<open>k = ?k\<close> by (simp add: st vis)
      next
        case False
        with x True have xin: "x \<in> set (activeBubbles s ?k)" by (simp add: st)
        then have "activeBubbles s ?k \<noteq> []" by auto
        then show ?thesis
          using False True stack_invD(3) [OF inv xin] by (simp add: st vis)
      qed
    qed
  qed
qed

lemma last_removeAll:
  "xs \<noteq> [] \<Longrightarrow> last xs \<noteq> b \<Longrightarrow> last (removeAll b xs) = last xs"
proof (induction xs)
  case Nil
  then show ?case by simp
next
  case (Cons a xs)
  show ?case
  proof (cases "xs = []")
    case True
    with Cons.prems show ?thesis by simp
  next
    case False
    with Cons.prems have l: "last xs \<noteq> b" by simp
    then have "last xs \<in> set (removeAll b xs)" using False by simp
    then have "removeAll b xs \<noteq> []" by (metis empty_iff empty_set)
    with Cons.IH [OF False l] False show ?thesis by auto
  qed
qed

lemma stack_inv_remove:
  assumes inv: "stack_inv s"
  shows "stack_inv (remove b s)"
proof (cases "parent (bubbles s b) = None")
  case True
  with inv show ?thesis by (simp add: remove_detached)
next
  case False
  let ?s = "remove b s"
  let ?k = "targetId (bubbles s b)"
  note P = remove_attached [OF False]
  note tid = remove_targetId
  have al': "allocated ?s x = allocated s x" for x
    by (simp add: allocated_def remove_frame)
  show ?thesis
    unfolding stack_inv_def
  proof (intro allI conjI ballI)
    fix k show "distinct (activeBubbles ?s k)"
      using stack_invD(1) [OF inv, of k] by (auto simp: P(2) distinct_removeAll)
  next
    fix k x
    show "(x \<in> set (activeBubbles ?s k)) =
           (allocated ?s x \<and> parent (bubbles ?s x) \<noteq> None \<and> targetId (bubbles ?s x) = k)"
      using stack_invD(2) [OF inv, of x k]
      by (auto simp: P(1) P(2) al' tid)
  next
    fix k x assume x: "x \<in> set (activeBubbles ?s k)"
    show "visible (bubbles ?s x) = (x = last (activeBubbles ?s k))"
    proof (cases "k = ?k")
      case False
      with x have xin: "x \<in> set (activeBubbles s k)" by (simp add: P(2))
      then have "targetId (bubbles s x) = k" using stack_invD(2) [OF inv, of x k] by simp
      with False have "x \<notin> set (activeBubbles s ?k)"
        using stack_invD(2) [OF inv, of x ?k] by auto
      then have "x \<notin> set (removeAll b (activeBubbles s ?k))" by simp
      then have "\<not> (removeAll b (activeBubbles s ?k) \<noteq> [] \<and> x = last (removeAll b (activeBubbles s ?k)))"
        using last_in_set by metis
      then have "visible (bubbles ?s x) = visible (bubbles s x)"
        using P(3) [of x] by auto
      with False xin show ?thesis using stack_invD(3) [OF inv xin] by (simp add: P(2))
    next
      case True
      let ?st = "activeBubbles s ?k"
      from x True have xin': "x \<in> set (removeAll b ?st)" by (simp add: P(2))
      then have xin: "x \<in> set ?st" and xb: "x \<noteq> b" by auto
      from xin' have ne: "removeAll b ?st \<noteq> []" by (metis empty_iff empty_set)
      have st': "activeBubbles ?s k = removeAll b ?st" using True by (simp add: P(2))
      show ?thesis
      proof (cases "x = last (removeAll b ?st)")
        case True
        then show ?thesis using ne by (simp add: st' P(3))
      next
        case neq: False
        have "x \<noteq> last ?st"
        proof (cases "last ?st = b")
          case True
          with xb show ?thesis by simp
        next
          case False
          have "?st \<noteq> []" using xin by auto
          then have "last (removeAll b ?st) = last ?st" using False by (rule last_removeAll)
          with neq show ?thesis by simp
        qed
        then have "\<not> visible (bubbles s x)" using stack_invD(3) [OF inv xin] by simp
        with neq show ?thesis by (simp add: st' P(3))
      qed
    qed
  qed
qed

lemma stack_inv_cong:
  "bubbles s' = bubbles s \<Longrightarrow> nextBubble s' = nextBubble s \<Longrightarrow> activeBubbles s' = activeBubbles s
   \<Longrightarrow> stack_inv s' = stack_inv s"
  by (simp add: stack_inv_def allocated_def)

lemma initialize_state:
  "fst (initialize w (Character c) t s) = Inr (nextBubble s)"
  "nextBubble (snd (initialize w (Character c) t s)) = Suc (nextBubble s)"
  "x \<noteq> nextBubble s \<Longrightarrow> bubbles (snd (initialize w (Character c) t s)) x = bubbles s x"
  "parent (bubbles (snd (initialize w (Character c) t s)) (nextBubble s)) = None"
  "visible (bubbles (snd (initialize w (Character c) t s)) (nextBubble s))"
  "targetCharacter (bubbles (snd (initialize w (Character c) t s)) (nextBubble s)) = c"
  "textLength (bubbles (snd (initialize w (Character c) t s)) (nextBubble s)) =
     (\<Sum>e\<leftarrow>flushed w t. int (length (buffer e)) - (if rtl e then 1 else 0))"
  "activeBubbles (snd (initialize w (Character c) t s)) = activeBubbles s"
  "speechBubbles (snd (initialize w (Character c) t s)) = speechBubbles s"
  "timeouts (snd (initialize w (Character c) t s)) = timeouts s"
  "now (snd (initialize w (Character c) t s)) = now s"
  "blockingSpeechBubble (snd (initialize w (Character c) t s)) = blockingSpeechBubble s"
  "currentInterpreter (snd (initialize w (Character c) t s)) = currentInterpreter s"
  "waitMode (snd (initialize w (Character c) t s)) = waitMode s"
  by (simp_all add: initialize_Some)

lemma stack_inv_initialize:
  assumes inv: "stack_inv s"
  shows "stack_inv (snd (initialize w target t s))"
proof (cases target rule: target_cases)
  case None
  with inv show ?thesis by (simp add: initialize_None)
next
  case (Some c)
  let ?n = "nextBubble s"
  let ?s = "snd (initialize w (Character c) t s)"
  note I = initialize_state [where w = w and c = c and t = t and s = s]
  have notin: "?n \<notin> set (activeBubbles s k)" for k
    using stack_invD(2) [OF inv, of ?n k] by (simp add: allocated_def)
  have old: "x \<in> set (activeBubbles s k) \<Longrightarrow> bubbles ?s x = bubbles s x" for x k
    using notin [of k] I(3) [of x] by auto
  have "stack_inv ?s"
    unfolding stack_inv_def
  proof (intro allI conjI ballI)
    fix k show "distinct (activeBubbles ?s k)"
      using stack_invD(1) [OF inv, of k] by (simp add: I)
  next
    fix k x
    show "(x \<in> set (activeBubbles ?s k)) =
           (allocated ?s x \<and> parent (bubbles ?s x) \<noteq> None \<and> targetId (bubbles ?s x) = k)"
    proof (cases "x = ?n")
      case True
      then show ?thesis using notin [of k] by (simp add: I)
    next
      case False
      then show ?thesis
        using stack_invD(2) [OF inv, of x k] by (auto simp: I allocated_def)
    qed
  next
    fix k x
    assume "x \<in> set (activeBubbles ?s k)"
    then have xin: "x \<in> set (activeBubbles s k)" by (simp add: I)
    show "visible (bubbles ?s x) = (x = last (activeBubbles ?s k))"
      using stack_invD(3) [OF inv xin] old [OF xin] by (simp add: I)
  qed
  then show ?thesis using Some by simp
qed

lemma frame_refl: "frame s s"
  by (simp add: frame_def)

lemma frame_trans: "frame s s' \<Longrightarrow> frame s' s'' \<Longrightarrow> frame s s''"
  by (simp add: frame_def)

lemma frame_addTo: "frame s (snd (addTo w p b s))"
  by (simp add: frame_def addTo_frame)

lemma frame_remove: "frame s (remove b s)"
  by (simp add: frame_def remove_frame)

lemma frame_fold_remove: "frame s (fold remove bs s)"
proof (induction bs arbitrary: s)
  case Nil
  show ?case by (simp add: frame_refl)
next
  case (Cons b bs)
  have "frame s (remove b s)" by (rule frame_remove)
  moreover have "frame (remove b s) (fold remove bs (remove b s))" by (rule Cons.IH)
  ultimately show ?case by (simp add: frame_trans)
qed

lemma updateBubbles_Cons:
  "updateBubbles w (b # bs) s =
     (if isPlayerWithinDistance w (bubbles s b) \<and> \<not> isOtherBubbleActive s b
      then if fst (addTo w (scene w) b s) = None
           then updateBubbles w bs (snd (addTo w (scene w) b s))
           else addTo w (scene w) b s
      else updateBubbles w bs (remove b s))"
  by (cases "addTo w (scene w) b s") (auto split: option.splits)

lemma frame_updateBubbles: "frame s (snd (updateBubbles w bs s))"
proof (induction bs arbitrary: s)
  case Nil
  show ?case by (simp add: frame_refl)
next
  case (Cons b bs)
  have r: "frame s (snd (updateBubbles w bs (remove b s)))"
    using frame_remove [of s b] Cons.IH [of "remove b s"] by (rule frame_trans)
  have a: "frame s (snd (updateBubbles w bs (snd (addTo w (scene w) b s))))"
    using frame_addTo [of s w "scene w" b] Cons.IH [of "snd (addTo w (scene w) b s)"]
    by (rule frame_trans)
  show ?case
    using r a frame_addTo [of s w "scene w" b] by (simp add: updateBubbles_Cons del: updateBubbles.simps)
qed

lemma frame_allocated: "frame s s' \<Longrightarrow> allocated s' x = allocated s x"
  by (simp add: frame_def allocated_def)

lemma frame_refs_ok: "frame s s' \<Longrightarrow> refs_ok s' = refs_ok s"
  by (simp add: frame_def refs_ok_def allocated_def)

lemma stack_inv_fold_remove: "stack_inv s \<Longrightarrow> stack_inv (fold remove bs s)"
  by (induction bs arbitrary: s) (simp_all add: stack_inv_remove)

lemma stack_inv_updateBubbles:
  "stack_inv s \<Longrightarrow> \<forall>b \<in> set bs. allocated s b \<Longrightarrow> stack_inv (snd (updateBubbles w bs s))"
proof (induction bs arbitrary: s)
  case Nil
  then show ?case by simp
next
  case (Cons b bs)
  let ?r = "remove b s"
  let ?a = "snd (addTo w (scene w) b s)"
  have ir: "stack_inv ?r" using Cons.prems(1) by (rule stack_inv_remove)
  have ar: "\<forall>x \<in> set bs. allocated ?r x"
    using Cons.prems(2) by (simp add: frame_allocated [OF frame_remove])
  have ia: "stack_inv ?a" using Cons.prems by (simp add: stack_inv_addTo)
  have aa: "\<forall>x \<in> set bs. allocated ?a x"
    using Cons.prems(2) by (simp add: frame_allocated [OF frame_addTo])
  show ?case
    using Cons.IH [OF ir ar] Cons.IH [OF ia aa] ia
    by (simp add: updateBubbles_Cons del: updateBubbles.simps)
qed

lemma refs_ok_initialize: "refs_ok s \<Longrightarrow> refs_ok (snd (initialize w target t s))"
proof (cases target rule: target_cases)
  case None
  assume "refs_ok s"
  with None show ?thesis by (simp add: initialize_None)
next
  case (Some c)
  assume "refs_ok s"
  then show ?thesis
    unfolding Some refs_ok_def allocated_def by (auto simp: initialize_state)
qed

lemma fold_remove_snd: "fold (\<lambda>e. remove (snd e)) es s = fold remove (map snd es) s"
  by (simp add: fold_map comp_def)

lemma stack_inv_elapse: "stack_inv s \<Longrightarrow> stack_inv (elapse ms s)"
proof -
  assume inv: "stack_inv s"
  let ?m = "fold remove (map snd (due (now s + ms) s)) s"
  have "stack_inv ?m" using inv by (rule stack_inv_fold_remove)
  moreover have "stack_inv (elapse ms s) = stack_inv ?m"
    by (rule stack_inv_cong) (simp_all add: elapse_def Let_def fold_remove_snd)
  ultimately show ?thesis by simp
qed

lemma refs_ok_elapse: "refs_ok s \<Longrightarrow> refs_ok (elapse ms s)"
proof -
  assume ok: "refs_ok s"
  let ?m = "fold remove (map snd (due (now s + ms) s)) s"
  have f: "frame s ?m" by (rule frame_fold_remove)
  then have n: "nextBubble ?m = nextBubble s" and sp: "speechBubbles ?m = speechBubbles s"
    by (simp_all add: frame_def)
  show ?thesis
    using ok unfolding refs_ok_def allocated_def
    by (auto simp: elapse_def Let_def fold_remove_snd n sp)
qed

lemma stack_inv_terminate: "stack_inv s \<Longrightarrow> stack_inv (terminate s)"
proof -
  assume inv: "stack_inv s"
  have "stack_inv (fold remove (speechBubbles s) s)" using inv by (rule stack_inv_fold_remove)
  moreover have "stack_inv (terminate s) = stack_inv (fold remove (speechBubbles s) s)"
    by (rule stack_inv_cong) (simp_all add: terminate_def)
  ultimately show ?thesis by simp
qed

lemma refs_ok_terminate: "refs_ok s \<Longrightarrow> refs_ok (terminate s)"
proof -
  assume ok: "refs_ok s"
  have f: "frame s (fold remove (speechBubbles s) s)" by (rule frame_fold_remove)
  then have n: "nextBubble (fold remove (speechBubbles s) s) = nextBubble s"
    and t: "timeouts (fold remove (speechBubbles s) s) = timeouts s"
    by (simp_all add: frame_def)
  show ?thesis
    using ok unfolding refs_ok_def allocated_def by (simp add: terminate_def n t)
qed

lemma refs_ok_updateAnimation: "refs_ok s \<Longrightarrow> refs_ok (snd (updateAnimation w s))"
  unfolding updateAnimation_def using frame_refs_ok [OF frame_updateBubbles] by simp

lemma stack_inv_updateAnimation:
  "stack_inv s \<Longrightarrow> refs_ok s \<Longrightarrow> stack_inv (snd (updateAnimation w s))"
  unfolding updateAnimation_def by (rule stack_inv_updateBubbles) (simp_all add: refs_ok_def)

lemma createBubbles_inv:
  "stack_inv s \<Longrightarrow> refs_ok s
   \<Longrightarrow> stack_inv (snd (createBubbles w es s)) \<and> refs_ok (snd (createBubbles w es s))"
proof (induction es arbitrary: s)
  case Nil
  then show ?case by simp
next
  case (Cons e es)
  show ?case
  proof (cases "\<exists>m t. event_data e = Some m \<and> m NOTETAG_BUBBLE = Some (MetaText t)")
    case False
    then have "snd (createBubbles w (e # es) s) = s"
      by (auto split: option.splits meta_value.splits)
    with Cons.prems show ?thesis by simp
  next
    case True
    then obtain m t where m: "event_data e = Some m" "m NOTETAG_BUBBLE = Some (MetaText t)"
      by blast
    let ?c = "event_character e"
    let ?i = "snd (initialize w (Character ?c) (replace_newlines t) s)"
    let ?s = "?i\<lparr>speechBubbles := speechBubbles ?i @ [nextBubble s]\<rparr>"
    have step: "createBubbles w (e # es) s = createBubbles w es ?s"
      using m by (simp add: initialize_Some)
    have "stack_inv ?i" using Cons.prems(1) by (rule stack_inv_initialize)
    moreover have "stack_inv ?s = stack_inv ?i" by (rule stack_inv_cong) simp_all
    ultimately have i: "stack_inv ?s" by simp
    have "refs_ok ?i" using Cons.prems(2) by (rule refs_ok_initialize)
    then have r: "refs_ok ?s"
      unfolding refs_ok_def allocated_def by (simp add: initialize_state)
    show ?thesis using Cons.IH [OF i r] step by simp
  qed
qed

lemma showBubble_None:
  "\<forall>c. target \<noteq> Character c \<Longrightarrow> showBubble w t target d blk s = (Some TypeError, s)"
  by (simp add: showBubble_def initialize_None)

lemma showBubble_Some:
  "showBubble w t (Character c) d blk s =
     (let n = nextBubble s;
          a = addTo w (scene w) n (snd (initialize w (Character c) t s))
      in if fst a \<noteq> None then a
         else
           (let s3 = setTimeout n (bubble_duration d (textLength (bubbles (snd a) n))) (snd a)
            in if blk then
                 (case currentInterpreter s3 of
                    None \<Rightarrow> (Some TypeError, s3\<lparr>blockingSpeechBubble := Some n\<rparr>)
                  | Some i \<Rightarrow>
                      (None, s3\<lparr>blockingSpeechBubble := Some n,
                                waitMode := (waitMode s3)(i := WAITMODE_BUBBLE)\<rparr>))
               else (None, s3)))"
  by (cases "addTo w (scene w) (nextBubble s) (snd (initialize w (Character c) t s))")
    (auto simp: showBubble_def initialize_Some Let_def split: option.splits)

lemma showBubble_core:
  "bubbles (snd (showBubble w t (Character c) d blk s))
     = bubbles (snd (addTo w (scene w) (nextBubble s) (snd (initialize w (Character c) t s))))"
  "nextBubble (snd (showBubble w t (Character c) d blk s)) = Suc (nextBubble s)"
  "activeBubbles (snd (showBubble w t (Character c) d blk s))
     = activeBubbles (snd (addTo w (scene w) (nextBubble s) (snd (initialize w (Character c) t s))))"
  "speechBubbles (snd (showBubble w t (Character c) d blk s)) = speechBubbles s"
  "now (snd (showBubble w t (Character c) d blk s)) = now s"
  "timeouts (snd (showBubble w t (Character c) d blk s)) = timeouts s
    \<or> (\<exists>T. timeouts (snd (showBubble w t (Character c) d blk s)) = timeouts s @ [(T, nextBubble s)])"
  by (simp_all add: showBubble_Some Let_def setTimeout_def addTo_frame initialize_state
      split: option.splits)

lemma stack_inv_showBubble:
  assumes "stack_inv s"
  shows "stack_inv (snd (showBubble w t target d blk s))"
proof (cases target rule: target_cases)
  case None
  with assms show ?thesis by (simp add: showBubble_None)
next
  case (Some c)
  let ?i = "snd (initialize w (Character c) t s)"
  let ?a = "snd (addTo w (scene w) (nextBubble s) ?i)"
  have "stack_inv ?i" using assms by (rule stack_inv_initialize)
  moreover have "allocated ?i (nextBubble s)" by (simp add: allocated_def initialize_state)
  ultimately have "stack_inv ?a" by (rule stack_inv_addTo)
  moreover have "stack_inv (snd (showBubble w t (Character c) d blk s)) = stack_inv ?a"
    by (rule stack_inv_cong) (simp_all add: showBubble_core addTo_frame initialize_state)
  ultimately show ?thesis using Some by simp
qed

lemma refs_ok_showBubble:
  assumes "refs_ok s"
  shows "refs_ok (snd (showBubble w t target d blk s))"
proof (cases target rule: target_cases)
  case None
  with assms show ?thesis by (simp add: showBubble_None)
next
  case (Some c)
  let ?r = "snd (showBubble w t (Character c) d blk s)"
  have sp: "\<forall>b \<in> set (speechBubbles ?r). b < nextBubble ?r"
    using assms by (auto simp: refs_ok_def allocated_def showBubble_core)
  have old: "\<forall>e \<in> set (timeouts s). snd e < Suc (nextBubble s)"
    using assms by (auto simp: refs_ok_def allocated_def)
  have "\<forall>e \<in> set (timeouts ?r). snd e < Suc (nextBubble s)"
    using showBubble_core(6) [of w t c d blk s] old by auto
  then show ?thesis
    using sp unfolding Some refs_ok_def allocated_def by (simp add: showBubble_core)
qed

lemma stack_inv_command_show: "stack_inv s \<Longrightarrow> stack_inv (snd (command_show w i a s))"
proof -
  assume "stack_inv s"
  moreover have "stack_inv (s\<lparr>currentInterpreter := Some i\<rparr>) = stack_inv s"
    by (rule stack_inv_cong) simp_all
  ultimately show ?thesis
    by (simp add: command_show_def Let_def stack_inv_showBubble)
qed

lemma refs_ok_command_show: "refs_ok s \<Longrightarrow> refs_ok (snd (command_show w i a s))"
proof -
  assume "refs_ok s"
  then have "refs_ok (s\<lparr>currentInterpreter := Some i\<rparr>)"
    by (simp add: refs_ok_def allocated_def)
  then show ?thesis
    by (simp add: command_show_def Let_def refs_ok_showBubble)
qed

lemma initial_inv: "initial s \<Longrightarrow> stack_inv s \<and> refs_ok s"
  by (simp add: initial_def stack_inv_def refs_ok_def allocated_def)

lemma reachable_inv: "reachable s \<Longrightarrow> stack_inv s \<and> refs_ok s"
proof (induction rule: reachable.induct)
  case (start s)
  then show ?case by (rule initial_inv)
next
  case (command s w i a)
  then show ?case by (simp add: stack_inv_command_show refs_ok_command_show)
next
  case (script s w t target duration blocking)
  then show ?case by (simp add: stack_inv_showBubble refs_ok_showBubble)
next
  case (load s w)
  then show ?case by (simp add: createDisplayObjects_def createBubbles_inv)
next
  case (unload s)
  then show ?case by (simp add: stack_inv_terminate refs_ok_terminate)
next
  case (tick s w)
  then show ?case by (simp add: stack_inv_updateAnimation refs_ok_updateAnimation)
next
  case (time s ms)
  then show ?case by (simp add: stack_inv_elapse refs_ok_elapse)
next
  case (attach s b w p)
  then show ?case by (simp add: stack_inv_addTo frame_refs_ok [OF frame_addTo])
next
  case (detach s b)
  then show ?case by (simp add: stack_inv_remove frame_refs_ok [OF frame_remove])
qed

lemma updateBubbles_other_parent:
  "x \<notin> set bs \<Longrightarrow> parent (bubbles (snd (updateBubbles w bs s)) x) = parent (bubbles s x)"
proof (induction bs arbitrary: s)
  case Nil
  then show ?case by simp
next
  case (Cons b bs)
  then have xb: "x \<noteq> b" and xbs: "x \<notin> set bs" by auto
  have r: "parent (bubbles (snd (updateBubbles w bs (remove b s))) x) = parent (bubbles s x)"
    using Cons.IH [OF xbs, of "remove b s"] xb by (simp add: remove_parent)
  have a: "parent (bubbles (snd (updateBubbles w bs (snd (addTo w (scene w) b s)))) x)
      = parent (bubbles s x)"
    using Cons.IH [OF xbs, of "snd (addTo w (scene w) b s)"] xb by (simp add: addTo_other_parent)
  show ?case
    using r a xb by (simp add: updateBubbles_Cons addTo_other_parent del: updateBubbles.simps)
qed

lemma createBubbles_old:
  "nextBubble s \<le> nextBubble (snd (createBubbles w es s))
   \<and> (\<forall>x < nextBubble s. bubbles (snd (createBubbles w es s)) x = bubbles s x)
   \<and> timeouts (snd (createBubbles w es s)) = timeouts s
   \<and> now (snd (createBubbles w es s)) = now s
   \<and> blockingSpeechBubble (snd (createBubbles w es s)) = blockingSpeechBubble s
   \<and> waitMode (snd (createBubbles w es s)) = waitMode s
   \<and> (\<forall>x \<in> set (speechBubbles (snd (createBubbles w es s))).
         x \<in> set (speechBubbles s) \<or> nextBubble s \<le> x)"
proof (induction es arbitrary: s)
  case Nil
  show ?case by simp
next
  case (Cons e es)
  show ?case
  proof (cases "\<exists>m t. event_data e = Some m \<and> m NOTETAG_BUBBLE = Some (MetaText t)")
    case False
    then have "snd (createBubbles w (e # es) s) = s"
      by (auto split: option.splits meta_value.splits)
    then show ?thesis by simp
  next
    case True
    then obtain m t where m: "event_data e = Some m" "m NOTETAG_BUBBLE = Some (MetaText t)"
      by blast
    let ?c = "event_character e"
    let ?i = "snd (initialize w (Character ?c) (replace_newlines t) s)"
    let ?s = "?i\<lparr>speechBubbles := speechBubbles ?i @ [nextBubble s]\<rparr>"
    have step: "createBubbles w (e # es) s = createBubbles w es ?s"
      using m by (simp add: initialize_Some)
    note I = initialize_state [where w = w and c = ?c and t = "replace_newlines t" and s = s]
    have n: "nextBubble ?s = Suc (nextBubble s)" by (simp add: I)
    have old: "\<forall>x < nextBubble s. bubbles ?s x = bubbles s x" by (simp add: I)
    have rest: "timeouts ?s = timeouts s" "now ?s = now s"
      "blockingSpeechBubble ?s = blockingSpeechBubble s" "waitMode ?s = waitMode s"
      "speechBubbles ?s = speechBubbles s @ [nextBubble s]"
      by (simp_all add: I)
    show ?thesis
      unfolding step using Cons.IH [of ?s] n old rest by (auto simp: less_Suc_eq)
  qed
qed

lemma elapse_parent:
  "parent (bubbles (elapse ms s) x) =
     (if \<exists>e \<in> set (timeouts s). snd e = x \<and> fst e \<le> now s + ms then None
      else parent (bubbles s x))"
  by (auto simp: elapse_def Let_def fold_remove_snd fold_remove_parent due_def)

lemma elapse_fields:
  "now (elapse ms s) = now s + ms"
  "timeouts (elapse ms s) = filter (\<lambda>e. \<not> fst e \<le> now s + ms) (timeouts s)"
  "nextBubble (elapse ms s) = nextBubble s"
  "speechBubbles (elapse ms s) = speechBubbles s"
  "blockingSpeechBubble (elapse ms s) = blockingSpeechBubble s"
  "waitMode (elapse ms s) = waitMode s"
  using frame_fold_remove [of s "map snd (due (now s + ms) s)"]
  by (simp_all add: elapse_def Let_def fold_remove_snd frame_def)

lemma tracked_elapse:
  assumes "tracked b T s" and "0 \<le> ms"
  shows "tracked b T (elapse ms s)"
    and "parent (bubbles (elapse ms s) b) = (if T \<le> now s + ms then None else parent (bubbles s b))"
proof -
  show p: "parent (bubbles (elapse ms s) b) = (if T \<le> now s + ms then None else parent (bubbles s b))"
  proof (cases "T \<le> now s + ms")
    case True
    show ?thesis
    proof (cases "parent (bubbles s b) = None")
      case None: True
      then show ?thesis by (simp add: elapse_parent)
    next
      case False
      then have "(T, b) \<in> set (timeouts s)" using assms(1) by (simp add: tracked_def)
      then have "\<exists>e \<in> set (timeouts s). snd e = b \<and> fst e \<le> now s + ms"
        using True by force
      then show ?thesis using True by (simp add: elapse_parent)
    qed
  next
    case False
    have "\<not> (\<exists>e \<in> set (timeouts s). snd e = b \<and> fst e \<le> now s + ms)"
      using assms(1) False by (auto simp: tracked_def)
    then show ?thesis using False by (auto simp: elapse_parent)
  qed
  show "tracked b T (elapse ms s)"
    using assms unfolding tracked_def p
    by (auto simp: elapse_fields allocated_def)
qed

lemma showBubble_not_blocking:
  "blockingSpeechBubble (snd (showBubble w t target d False s)) = blockingSpeechBubble s"
  "waitMode (snd (showBubble w t target d False s)) = waitMode s"
  by (cases target rule: target_cases;
      simp add: showBubble_None showBubble_Some Let_def setTimeout_def addTo_frame initialize_state)+

lemma command_show_fields:
  "now (snd (command_show w i a s)) = now s"
  "speechBubbles (snd (command_show w i a s)) = speechBubbles s"
  "nextBubble s \<le> nextBubble (snd (command_show w i a s))"
  "x < nextBubble s \<Longrightarrow> parent (bubbles (snd (command_show w i a s)) x) = parent (bubbles s x)"
  "\<forall>e \<in> set (timeouts (snd (command_show w i a s))). e \<in> set (timeouts s) \<or> nextBubble s \<le> snd e"
  "set (timeouts s) \<subseteq> set (timeouts (snd (command_show w i a s)))"
proof -
  let ?s = "s\<lparr>currentInterpreter := Some i\<rparr>"
  let ?d = "Number_of w (durationMs a)"
  let ?blk = "toLowerCase (isBlocking_arg a) = ''true''"
  have cs: "command_show w i a s = showBubble w (arg_text a) (command_target w i a) ?d ?blk ?s"
    by (simp add: command_show_def Let_def)
  show "now (snd (command_show w i a s)) = now s"
    unfolding cs by (cases "command_target w i a" rule: target_cases) (simp_all add: showBubble_None showBubble_core)
  show "speechBubbles (snd (command_show w i a s)) = speechBubbles s"
    unfolding cs by (cases "command_target w i a" rule: target_cases) (simp_all add: showBubble_None showBubble_core)
  show "nextBubble s \<le> nextBubble (snd (command_show w i a s))"
    unfolding cs by (cases "command_target w i a" rule: target_cases) (simp_all add: showBubble_None showBubble_core)
  show "parent (bubbles (snd (command_show w i a s)) x) = parent (bubbles s x)" if "x < nextBubble s"
  proof (cases "command_target w i a" rule: target_cases)
    case None
    then show ?thesis unfolding cs by (simp add: showBubble_None)
  next
    case (Some c)
    have "x \<noteq> nextBubble ?s" using that by simp
    then show ?thesis
      unfolding cs Some by (simp add: showBubble_core addTo_other_parent initialize_state)
  qed
  show "\<forall>e \<in> set (timeouts (snd (command_show w i a s))). e \<in> set (timeouts s) \<or> nextBubble s \<le> snd e"
  proof (cases "command_target w i a" rule: target_cases)
    case None
    then show ?thesis unfolding cs by (simp add: showBubble_None)
  next
    case (Some c)
    show ?thesis
      unfolding cs Some
      using showBubble_core(6) [of w "arg_text a" c ?d ?blk ?s] by auto
  qed
  show "set (timeouts s) \<subseteq> set (timeouts (snd (command_show w i a s)))"
  proof (cases "command_target w i a" rule: target_cases)
    case None
    then show ?thesis unfolding cs by (simp add: showBubble_None)
  next
    case (Some c)
    show ?thesis
      unfolding cs Some
      using showBubble_core(6) [of w "arg_text a" c ?d ?blk ?s] by auto
  qed
qed

lemma tracked_other_step:
  assumes tr: "tracked b T s" and ne: "\<not> is_Elapse st"
  shows "parent (bubbles (do_step st s) b) = parent (bubbles s b)"
    and "now (do_step st s) = now s"
    and "tracked b T (do_step st s)"
proof -
  have al: "b < nextBubble s" and nsp: "b \<notin> set (speechBubbles s)"
    using tr by (simp_all add: tracked_def allocated_def)
  have "parent (bubbles (do_step st s) b) = parent (bubbles s b) \<and> now (do_step st s) = now s
      \<and> nextBubble s \<le> nextBubble (do_step st s)
      \<and> (\<forall>x \<in> set (speechBubbles (do_step st s)). x \<in> set (speechBubbles s) \<or> nextBubble s \<le> x)
      \<and> (\<forall>e \<in> set (timeouts (do_step st s)). e \<in> set (timeouts s) \<or> nextBubble s \<le> snd e)
      \<and> set (timeouts s) \<subseteq> set (timeouts (do_step st s))"
  proof (cases st)
    case (Command w i a)
    show ?thesis
      unfolding Command do_step.simps
      using command_show_fields [where w = w and i = i and a = a and s = s] al by auto
  next
    case (Load w)
    show ?thesis
      unfolding Load do_step.simps createDisplayObjects_def
      using createBubbles_old [of s w "filter has_notetag (map_event_list w)"] al by auto
  next
    case Unload
    have "frame s (fold remove (speechBubbles s) s)" by (rule frame_fold_remove)
    then show ?thesis
      unfolding Unload do_step.simps terminate_def
      using nsp by (simp add: frame_def fold_remove_parent)
  next
    case (Tick w)
    have "frame s (snd (updateBubbles w (speechBubbles s) s))" by (rule frame_updateBubbles)
    then show ?thesis
      unfolding Tick do_step.simps updateAnimation_def
      using nsp by (simp add: frame_def updateBubbles_other_parent)
  next
    case (Elapse ms)
    with ne show ?thesis by simp
  qed
  then have p: "parent (bubbles (do_step st s) b) = parent (bubbles s b)"
    and n: "now (do_step st s) = now s"
    and nb: "nextBubble s \<le> nextBubble (do_step st s)"
    and sp: "\<forall>x \<in> set (speechBubbles (do_step st s)). x \<in> set (speechBubbles s) \<or> nextBubble s \<le> x"
    and tm: "\<forall>e \<in> set (timeouts (do_step st s)). e \<in> set (timeouts s) \<or> nextBubble s \<le> snd e"
    and sub: "set (timeouts s) \<subseteq> set (timeouts (do_step st s))"
    by blast+
  show "parent (bubbles (do_step st s) b) = parent (bubbles s b)" by (rule p)
  show "now (do_step st s) = now s" by (rule n)
  have 1: "allocated (do_step st s) b" using al nb by (simp add: allocated_def)
  have 2: "b \<notin> set (speechBubbles (do_step st s))" using sp nsp al by auto
  have 3: "\<forall>e \<in> set (timeouts (do_step st s)). snd e = b \<longrightarrow> fst e = T"
  proof (intro ballI impI)
    fix e assume e: "e \<in> set (timeouts (do_step st s))" "snd e = b"
    then have "e \<in> set (timeouts s)" using tm al by auto
    then show "fst e = T" using tr e(2) by (simp add: tracked_def)
  qed
  have 4: "parent (bubbles (do_step st s) b) \<noteq> None \<longrightarrow> (T, b) \<in> set (timeouts (do_step st s))"
    using tr sub unfolding p tracked_def by auto
  have 5: "parent (bubbles (do_step st s) b) = None \<longrightarrow> T \<le> now (do_step st s)"
    using tr unfolding p n tracked_def by simp
  show "tracked b T (do_step st s)"
    unfolding tracked_def using 1 2 3 4 5 by blast
qed

lemma showBubble_ok:
  assumes sp: "characterSprites w c \<noteq> None"
  shows "parent (bubbles (snd (showBubble w t (Character c) d blk s)) (nextBubble s)) = Some (scene w)"
    and "textLength (bubbles (snd (showBubble w t (Character c) d blk s)) (nextBubble s)) =
           (\<Sum>e\<leftarrow>flushed w t. int (length (buffer e)) - (if rtl e then 1 else 0))"
    and "timeouts (snd (showBubble w t (Character c) d blk s)) =
           timeouts s @ [(now s + timeout_delay (bubble_duration d
              (\<Sum>e\<leftarrow>flushed w t. int (length (buffer e)) - (if rtl e then 1 else 0))), nextBubble s)]"
    and "blk \<Longrightarrow> blockingSpeechBubble (snd (showBubble w t (Character c) d blk s)) = Some (nextBubble s)"
    and "blk \<Longrightarrow> currentInterpreter s = Some i
           \<Longrightarrow> waitMode (snd (showBubble w t (Character c) d blk s)) i = WAITMODE_BUBBLE"
    and "\<not> blk \<or> currentInterpreter s \<noteq> None \<Longrightarrow> fst (showBubble w t (Character c) d blk s) = None"
proof -
  let ?n = "nextBubble s"
  let ?i = "snd (initialize w (Character c) t s)"
  let ?a = "addTo w (scene w) ?n ?i"
  note I = initialize_state [where w = w and c = c and t = t and s = s]
  have d: "parent (bubbles ?i ?n) = None" by (simp add: I)
  have s: "characterSprites w (targetCharacter (bubbles ?i ?n)) \<noteq> None" using sp by (simp add: I)
  note A = addTo_detached [OF d s]
  have f: "fst ?a = None" by (rule A(1))
  have len: "textLength (bubbles (snd ?a) ?n) =
      (\<Sum>e\<leftarrow>flushed w t. int (length (buffer e)) - (if rtl e then 1 else 0))"
    by (simp add: addTo_frame I)
  show "parent (bubbles (snd (showBubble w t (Character c) d blk s)) ?n) = Some (scene w)"
    using A(2) [of "scene w" ?n] by (simp add: showBubble_core)
  show "textLength (bubbles (snd (showBubble w t (Character c) d blk s)) ?n) =
           (\<Sum>e\<leftarrow>flushed w t. int (length (buffer e)) - (if rtl e then 1 else 0))"
    using len by (simp add: showBubble_core)
  show "timeouts (snd (showBubble w t (Character c) d blk s)) =
           timeouts s @ [(now s + timeout_delay (bubble_duration d
              (\<Sum>e\<leftarrow>flushed w t. int (length (buffer e)) - (if rtl e then 1 else 0))), ?n)]"
    using f len
    by (simp add: showBubble_Some Let_def setTimeout_def addTo_frame I split: option.splits)
  show "blk \<Longrightarrow> blockingSpeechBubble (snd (showBubble w t (Character c) d blk s)) = Some ?n"
    using f by (simp add: showBubble_Some Let_def split: option.splits)
  show "blk \<Longrightarrow> currentInterpreter s = Some i
           \<Longrightarrow> waitMode (snd (showBubble w t (Character c) d blk s)) i = WAITMODE_BUBBLE"
    using f by (simp add: showBubble_Some Let_def setTimeout_def addTo_frame I)
  show "\<not> blk \<or> currentInterpreter s \<noteq> None \<Longrightarrow> fst (showBubble w t (Character c) d blk s) = None"
    using f by (auto simp: showBubble_Some Let_def setTimeout_def addTo_frame I)
qed

lemma showBubble_tracked:
  assumes sp: "characterSprites w c \<noteq> None" and ok: "refs_ok s"
  shows "tracked (nextBubble s)
           (now s + timeout_delay (bubble_duration d
              (\<Sum>e\<leftarrow>flushed w t. int (length (buffer e)) - (if rtl e then 1 else 0))))
           (snd (showBubble w t (Character c) d blk s))"
proof -
  have 1: "nextBubble s \<notin> set (speechBubbles s)"
    using ok by (auto simp: refs_ok_def allocated_def)
  have 2: "\<forall>e \<in> set (timeouts s). snd e \<noteq> nextBubble s"
    using ok by (auto simp: refs_ok_def allocated_def)
  show ?thesis
    unfolding tracked_def using 1 2
    by (simp add: showBubble_ok(1,3) [OF sp] showBubble_core(2,4,5) allocated_def)
qed

lemma run_snoc: "run (steps @ [st]) s = do_step st (run steps s)"
  by (simp add: run_def)

lemma now_do_step: "now (do_step st s) = now s + passes st"
proof (cases st)
  case (Command w i a)
  then show ?thesis by (simp add: command_show_fields)
next
  case (Load w)
  then show ?thesis by (simp add: createDisplayObjects_def createBubbles_old)
next
  case Unload
  have "frame s (fold remove (speechBubbles s) s)" by (rule frame_fold_remove)
  then show ?thesis using Unload by (simp add: terminate_def frame_def)
next
  case (Tick w)
  have "frame s (snd (updateBubbles w (speechBubbles s) s))" by (rule frame_updateBubbles)
  then show ?thesis using Tick by (simp add: updateAnimation_def frame_def)
next
  case (Elapse ms)
  then show ?thesis by (simp add: elapse_fields)
qed

lemma now_run: "now (run steps s) = now s + elapsed steps"
  by (induction steps rule: rev_induct) (simp_all add: run_snoc now_do_step elapsed_def, simp add: run_def)

lemma tracked_run:
  assumes "tracked b T s" and "\<forall>st \<in> set steps. 0 \<le> passes st"
  shows "tracked b T (run steps s)"
  using assms(2)
proof (induction steps rule: rev_induct)
  case Nil
  show ?case using assms(1) by (simp add: run_def)
next
  case (snoc st steps)
  then have IH: "tracked b T (run steps s)" and p: "0 \<le> passes st" by simp_all
  show ?case
  proof (cases st)
    case (Elapse ms)
    then show ?thesis using tracked_elapse(1) [OF IH, of ms] p by (simp add: run_snoc)
  qed (use tracked_other_step(3) [OF IH, of st] in \<open>simp_all add: run_snoc\<close>)
qed

lemma attached_run:
  assumes tr: "tracked b T s" and pos: "\<forall>st \<in> set steps. 0 \<le> passes st"
    and att: "parent (bubbles s b) \<noteq> None"
  shows "parent (bubbles (run steps s) b) \<noteq> None
         \<longrightarrow> now (run steps s) < T \<or> (\<forall>st \<in> set steps. \<not> is_Elapse st)"
  using pos
proof (induction steps rule: rev_induct)
  case Nil
  show ?case by simp
next
  case (snoc st steps)
  then have IH: "parent (bubbles (run steps s) b) \<noteq> None
         \<longrightarrow> now (run steps s) < T \<or> (\<forall>st \<in> set steps. \<not> is_Elapse st)"
    and p: "0 \<le> passes st" and ps: "\<forall>st \<in> set steps. 0 \<le> passes st" by simp_all
  have t: "tracked b T (run steps s)" using tr ps by (rule tracked_run)
  show ?case
  proof (cases st)
    case (Elapse ms)
    have "parent (bubbles (elapse ms (run steps s)) b) \<noteq> None \<longrightarrow> now (run steps s) + ms < T"
      using tracked_elapse(2) [OF t, of ms] p Elapse by (simp split: if_splits)
    then show ?thesis using Elapse by (simp add: run_snoc elapse_fields)
  next
    case (Command w i a)
    then have ne: "\<not> is_Elapse st" by simp
    show ?thesis
      using IH tracked_other_step(1,2) [OF t ne] ne by (auto simp: run_snoc)
  next
    case (Load w)
    then have ne: "\<not> is_Elapse st" by simp
    show ?thesis
      using IH tracked_other_step(1,2) [OF t ne] ne by (auto simp: run_snoc)
  next
    case Unload
    then have ne: "\<not> is_Elapse st" by simp
    show ?thesis
      using IH tracked_other_step(1,2) [OF t ne] ne by (auto simp: run_snoc)
  next
    case (Tick w)
    then have ne: "\<not> is_Elapse st" by simp
    show ?thesis
      using IH tracked_other_step(1,2) [OF t ne] ne by (auto simp: run_snoc)
  qed
qed

lemma wait_fields_step:
  assumes "\<not> is_blocking st"
  shows "blockingSpeechBubble (do_step st s) = blockingSpeechBubble s \<and> waitMode (do_step st s) = waitMode s"
proof (cases st)
  case (Command w i a)
  with assms have f: "(toLowerCase (isBlocking_arg a) = ''true'') = False" by simp
  show ?thesis
    unfolding Command do_step.simps command_show_def Let_def f
    by (simp add: showBubble_not_blocking)
next
  case (Load w)
  then show ?thesis by (simp add: createDisplayObjects_def createBubbles_old)
next
  case Unload
  have "frame s (fold remove (speechBubbles s) s)" by (rule frame_fold_remove)
  then show ?thesis using Unload by (simp add: terminate_def frame_def)
next
  case (Tick w)
  have "frame s (snd (updateBubbles w (speechBubbles s) s))" by (rule frame_updateBubbles)
  then show ?thesis using Tick by (simp add: updateAnimation_def frame_def)
next
  case (Elapse ms)
  then show ?thesis by (simp add: elapse_fields)
qed

lemma wait_fields_run:
  "\<forall>st \<in> set steps. \<not> is_blocking st
   \<Longrightarrow> blockingSpeechBubble (run steps s) = blockingSpeechBubble s \<and> waitMode (run steps s) = waitMode s"
proof (induction steps rule: rev_induct)
  case Nil
  show ?case by (simp add: run_def)
next
  case (snoc st steps)
  then show ?case using wait_fields_step [of st "run steps s"] by (simp add: run_snoc)
qed

lemma command_show_expiry:
  assumes re: "reachable s"
    and tg: "command_target w i a = Character c"
    and sp: "characterSprites w c \<noteq> None"
    and pos: "\<forall>st \<in> set steps. 0 \<le> passes st"
  shows "textLength (bubbles (snd (command_show w i a s)) (nextBubble s)) =
           (\<Sum>e\<leftarrow>flushed w (arg_text a). int (length (buffer e)) - (if rtl e then 1 else 0))"
    and "timeouts (snd (command_show w i a s)) =
           timeouts s @ [(now s + timeout_delay (bubble_duration (Number_of w (durationMs a))
              (textLength (bubbles (snd (command_show w i a s)) (nextBubble s)))), nextBubble s)]"
    and "fst (command_show w i a s) = None"
    and "parent (bubbles (snd (command_show w i a s)) (nextBubble s)) = Some (scene w)"
    and "elapsed steps < timeout_delay (bubble_duration (Number_of w (durationMs a))
              (textLength (bubbles (snd (command_show w i a s)) (nextBubble s))))
         \<Longrightarrow> parent (bubbles (run steps (snd (command_show w i a s))) (nextBubble s)) \<noteq> None"
    and "timeout_delay (bubble_duration (Number_of w (durationMs a))
              (textLength (bubbles (snd (command_show w i a s)) (nextBubble s)))) \<le> elapsed steps
         \<Longrightarrow> \<exists>st \<in> set steps. is_Elapse st
         \<Longrightarrow> parent (bubbles (run steps (snd (command_show w i a s))) (nextBubble s)) = None"
proof -
  let ?s = "s\<lparr>currentInterpreter := Some i\<rparr>"
  let ?d = "Number_of w (durationMs a)"
  let ?blk = "toLowerCase (isBlocking_arg a) = ''true''"
  let ?r = "snd (command_show w i a s)"
  let ?b = "nextBubble s"
  let ?len = "\<Sum>e\<leftarrow>flushed w (arg_text a). int (length (buffer e)) - (if rtl e then 1 else 0)"
  let ?D = "timeout_delay (bubble_duration ?d ?len)"
  have cs: "command_show w i a s = showBubble w (arg_text a) (Character c) ?d ?blk ?s"
    using tg by (simp add: command_show_def Let_def)
  have ok: "refs_ok ?s" using reachable_inv [OF re] by (simp add: refs_ok_def allocated_def)
  note S = showBubble_ok [OF sp, where t = "arg_text a" and d = ?d and blk = ?blk and s = ?s]
  show len: "textLength (bubbles ?r ?b) = ?len" using S(2) by (simp add: cs)
  show "timeouts ?r = timeouts s @ [(now s + timeout_delay (bubble_duration ?d (textLength (bubbles ?r ?b))), ?b)]"
    unfolding len using S(3) by (simp add: cs)
  show "fst (command_show w i a s) = None" using S(6) by (simp add: cs)
  show att: "parent (bubbles ?r ?b) = Some (scene w)" using S(1) by (simp add: cs)
  have tr: "tracked ?b (now s + ?D) ?r"
    using showBubble_tracked [OF sp ok, of ?d "arg_text a" ?blk] by (simp add: cs)
  have nw: "now (run steps ?r) = now s + elapsed steps"
    by (simp add: now_run command_show_fields)
  have t: "tracked ?b (now s + ?D) (run steps ?r)" using tr pos by (rule tracked_run)
  show "parent (bubbles (run steps ?r) ?b) \<noteq> None" if "elapsed steps < timeout_delay (bubble_duration ?d (textLength (bubbles ?r ?b)))"
    using that t unfolding len tracked_def nw by auto
  have a: "parent (bubbles (run steps ?r) ?b) \<noteq> None
         \<longrightarrow> now (run steps ?r) < now s + ?D \<or> (\<forall>st \<in> set steps. \<not> is_Elapse st)"
    using tr pos by (rule attached_run) (simp add: att)
  show "parent (bubbles (run steps ?r) ?b) = None"
    if "timeout_delay (bubble_duration ?d (textLength (bubbles ?r ?b))) \<le> elapsed steps"
      and "\<exists>st \<in> set steps. is_Elapse st"
    using that a unfolding len nw by auto
qed












section \<open>Facts about target resolution\<close>

lemma ToString_Str: "ToString w (Str k) = k"
  by (simp add: ToString_def)

lemma command_target_handle:
  "command_target w this a =
     (let sel = targetSelector a;
          k = targetSelectorId a;
          var = (if truthy_value (variables w k) then variables w k else Number (Num 0));
          handle =
            (if sel = ''This event'' then map_events w (ToString w (interpreter_eventId w this))
             else if sel = ''Player'' then Character Game_Player
             else if sel = ''Event'' then map_events w k
             else if sel = ''Event by variable'' then map_events w (ToString w var)
             else if sel = ''Follower'' then followers w k
             else if sel = ''Follower by variable'' then followers w (ToString w var)
             else Object_prototype w sel)
      in if truthy_value handle then handle else map_events w sel)"
  by (simp add: Let_def command_target_def selected_def selector_table_def value_or_def
      getCurrentEvent_def getPlayer_def getEventById_def getEventByVar_def getFollowerById_def
      getFollowerByVar_def variable_value_def ToString_Str)

section \<open>Evaluation on the example data\<close>

lemmas eval_defs =
  command_show_def showBubble_def initialize_Some initialize_None addTo_def update_def remove_def
  set_parent_def set_visible_def stack_remove_def stack_push_def activeBubble_def
  activeBubbles_of_def targetId_def decimal.simps command_target_def selector_table_def
  getCurrentEvent_def getPlayer_def getEventById_def getEventByVar_def getFollowerById_def
  getFollowerByVar_def variable_value_def selected_def value_or_def truthy_value_def ToString_def
  array_property_def object_property_def Object_prototype_names_def Array_prototype_names_def
  toLowerCase_def lower_char_def setTimeout_def timeout_delay_def bubble_duration_def
  or_else_def truthy_def getRectForText_def double_defs WAITMODE_BUBBLE_def NOTETAG_BUBBLE_def
  floor_rat_numeral demo_world_def demo_args_def initial_state_def no_bubble_def Let_def

lemma demo_show:
  "command_show demo_world 0 demo_args initial_state =
     (None, initial_state\<lparr>
        bubbles := (bubbles initial_state)(0 := \<lparr>targetCharacter = Game_Event 7, textLength = 10,
            width = Num 134, height = Num 60, window_x = Num 437, window_y = Num 194, parent = Some 1, visible = True\<rparr>),
        nextBubble := 1,
        activeBubbles := (activeBubbles initial_state)(''e7'' := [0]),
        blockingSpeechBubble := Some 0,
        currentInterpreter := Some 0,
        waitMode := (waitMode initial_state)(0 := ''bubble''),
        timeouts := [(1500, 0)]\<rparr>)"
  by (simp add: eval_defs)

lemma demo_crowded_state:
  "demo_crowded = initial_state\<lparr>
        bubbles := (bubbles initial_state)
          (0 := \<lparr>targetCharacter = Game_Event 7, textLength = 10,
             width = Num 134, height = Num 60, window_x = Num 437, window_y = Num 194, parent = Some 1, visible = False\<rparr>,
           Suc 0 := \<lparr>targetCharacter = Game_Event 7, textLength = 10,
             width = Num 134, height = Num 60, window_x = Num 437, window_y = Num 194, parent = Some 1, visible = True\<rparr>),
        nextBubble := 2,
        activeBubbles := (activeBubbles initial_state)(''e7'' := [0, 1]),
        blockingSpeechBubble := Some 1,
        currentInterpreter := Some 0,
        waitMode := (waitMode initial_state)(0 := ''bubble''),
        timeouts := [(1500, 0), (1500, 1)]\<rparr>"
  unfolding demo_crowded_def demo_shown_def demo_show
  by (simp add: eval_defs)

lemma demo_crowded_eval:
  "nextBubble demo_crowded = 2"
  "activeBubbles demo_crowded ''e7'' = [0, 1]"
  "parent (bubbles demo_crowded 0) = Some 1"
  "parent (bubbles demo_crowded (Suc 0)) = Some 1"
  "visible (bubbles demo_crowded 0) = False"
  "visible (bubbles demo_crowded (Suc 0)) = True"
  "targetId (bubbles demo_crowded 0) = ''e7''"
  "targetId (bubbles demo_crowded (Suc 0)) = ''e7''"
  by (simp_all add: demo_crowded_state targetId_def decimal.simps)

lemma demo_shown_eval:
  "nextBubble initial_state = 0"
  "now initial_state = 0"
  "timeouts initial_state = []"
  "textLength (bubbles demo_shown 0) = 10"
  "Number_of demo_world (durationMs demo_args) = Num 0"
  "timeout_delay (bubble_duration (Num 0) 10) = 1500"
  by (simp_all add: demo_shown_def demo_show)
     (simp_all add: initial_state_def demo_world_def demo_args_def timeout_delay_def
        bubble_duration_def or_else_def truthy_def)

lemma demo_hyps:
  "reachable initial_state"
  "command_target demo_world 0 demo_args = Character (Game_Event 7)"
  "characterSprites demo_world (Game_Event 7) \<noteq> None"
  "toLowerCase (isBlocking_arg demo_args) = ''true''"
proof -
  have "initial initial_state" by (simp add: initial_def initial_state_def)
  then show "reachable initial_state" by (rule reachable.start)
  show "command_target demo_world 0 demo_args = Character (Game_Event 7)" by (simp add: eval_defs)
  show "characterSprites demo_world (Game_Event 7) \<noteq> None" by (simp add: demo_world_def)
  show "toLowerCase (isBlocking_arg demo_args) = ''true''" by (simp add: eval_defs)
qed






section \<open>The claims\<close>

text \<open>
  C1. In every reachable state (so after every animation update of the player and after
  every single \<open>addTo\<close> or \<open>remove\<close>), at most one bubble of a target is shown, that is,
  attached and visible: the last entry of the target's array, onto which \<open>addTo\<close> pushes.
  Every other attached bubble of the target is hidden.
\<close>

theorem one_visible_bubble_per_target:
  assumes "reachable s"
  shows "(\<forall>b b'. shown s b \<and> shown s b' \<and> targetId (bubbles s b) = targetId (bubbles s b')
            \<longrightarrow> b = b')
    \<and> (\<forall>b. shown s b \<longrightarrow> activeBubble s b = Some b)
    \<and> (\<forall>b t. allocated s b \<and> activeBubble s b = Some t \<longrightarrow> shown s t)
    \<and> (\<forall>b t. allocated s b \<and> isActive (bubbles s b) \<and> activeBubble s b = Some t \<and> b \<noteq> t
            \<longrightarrow> \<not> visible (bubbles s b))"
proof -
  have inv: "stack_inv s" using assms reachable_inv by blast
  have top: "activeBubble s b = Some b" if "shown s b" for b
  proof -
    let ?k = "targetId (bubbles s b)"
    have "b \<in> set (activeBubbles s ?k)"
      using that stack_invD(2) [OF inv, of b ?k] by (simp add: shown_def isActive_def)
    moreover from this have "b = last (activeBubbles s ?k)"
      using that stack_invD(3) [OF inv, of b ?k] by (simp add: shown_def)
    ultimately show ?thesis
      by (auto simp: activeBubble_def activeBubbles_of_def)
  qed
  have one: "b = b'" if "shown s b" "shown s b'" "targetId (bubbles s b) = targetId (bubbles s b')"
    for b b'
  proof -
    have "activeBubble s b = activeBubble s b'"
      using that(3) by (simp add: activeBubble_def activeBubbles_of_def)
    then show ?thesis using top [OF that(1)] top [OF that(2)] by simp
  qed
  have sh: "shown s t" if "activeBubble s b = Some t" for b t
  proof -
    let ?k = "targetId (bubbles s b)"
    from that have ne: "activeBubbles s ?k \<noteq> []" and t: "t = last (activeBubbles s ?k)"
      by (auto simp: activeBubble_def activeBubbles_of_def split: if_splits)
    then have tin: "t \<in> set (activeBubbles s ?k)" by simp
    then show ?thesis
      using stack_invD(2) [OF inv, of t ?k] stack_invD(3) [OF inv tin] t
      by (simp add: shown_def isActive_def)
  qed
  have hid: "\<not> visible (bubbles s b)"
    if "allocated s b" "isActive (bubbles s b)" "activeBubble s b = Some t" "b \<noteq> t" for b t
  proof -
    let ?k = "targetId (bubbles s b)"
    have bin: "b \<in> set (activeBubbles s ?k)"
      using that(1,2) stack_invD(2) [OF inv, of b ?k] by (simp add: isActive_def)
    from that(3) have "t = last (activeBubbles s ?k)"
      by (auto simp: activeBubble_def activeBubbles_of_def split: if_splits)
    then show ?thesis using stack_invD(3) [OF inv bin] that(4) by simp
  qed
  show ?thesis
  proof (intro conjI allI impI)
    fix b b' assume "shown s b \<and> shown s b' \<and> targetId (bubbles s b) = targetId (bubbles s b')"
    then show "b = b'" using one by blast
  next
    fix b assume "shown s b"
    then show "activeBubble s b = Some b" by (rule top)
  next
    fix b t assume "allocated s b \<and> activeBubble s b = Some t"
    then show "shown s t" using sh by blast
  next
    fix b t
    assume "allocated s b \<and> isActive (bubbles s b) \<and> activeBubble s b = Some t \<and> b \<noteq> t"
    then show "\<not> visible (bubbles s b)" using hid by blast
  qed
qed

theorem one_visible_bubble_per_target_witness:
  "reachable demo_crowded
   \<and> shown demo_crowded 1 \<and> activeBubble demo_crowded 1 = Some 1
   \<and> allocated demo_crowded 0 \<and> isActive (bubbles demo_crowded 0)
   \<and> targetId (bubbles demo_crowded 0) = targetId (bubbles demo_crowded 1)
   \<and> \<not> visible (bubbles demo_crowded 0) \<and> \<not> shown demo_crowded 0"
proof -
  have "initial initial_state" by (simp add: initial_def initial_state_def)
  then have "reachable initial_state" by (rule reachable.start)
  then have "reachable demo_shown" unfolding demo_shown_def by (rule reachable.command)
  then have r: "reachable demo_crowded" unfolding demo_crowded_def by (rule reachable.command)
  have s1: "shown demo_crowded 1" and a0: "allocated demo_crowded 0" "isActive (bubbles demo_crowded 0)"
    and k: "targetId (bubbles demo_crowded 0) = targetId (bubbles demo_crowded 1)"
    by (simp_all add: shown_def allocated_def isActive_def demo_crowded_eval)
  from one_visible_bubble_per_target [OF r] s1
  have t: "activeBubble demo_crowded 1 = Some 1" by blast
  have t0: "activeBubble demo_crowded 0 = Some 1"
    by (simp add: activeBubble_def activeBubbles_of_def demo_crowded_eval)
  from one_visible_bubble_per_target [OF r] a0 t0
  have h: "\<not> visible (bubbles demo_crowded 0)" by (metis zero_neq_one)
  then show ?thesis using r s1 t a0 k by (simp add: shown_def)
qed

text \<open>
  C2. Two different bubbles \<open>A\<close> and \<open>B\<close> of one target, neither attached, whose character
  has a sprite: after \<open>addTo A\<close> and then \<open>addTo B\<close> both are children of the scene, \<open>A\<close> is
  hidden and \<open>B\<close> is visible; after \<open>remove B\<close> the bubble \<open>A\<close> is visible again, still
  attached and the last entry of the target's array, with no further \<open>addTo\<close>.
\<close>

theorem lifo_resume:
  assumes AB: "A \<noteq> B"
    and same: "targetId (bubbles s A) = targetId (bubbles s B)"
    and dA: "parent (bubbles s A) = None" and dB: "parent (bubbles s B) = None"
    and spA: "characterSprites w (targetCharacter (bubbles s A)) \<noteq> None"
    and spB: "characterSprites w (targetCharacter (bubbles s B)) \<noteq> None"
  shows "fst (addTo w p A s) = None
    \<and> fst (addTo w p B (snd (addTo w p A s))) = None
    \<and> \<not> visible (bubbles (snd (addTo w p B (snd (addTo w p A s)))) A)
    \<and> visible (bubbles (snd (addTo w p B (snd (addTo w p A s)))) B)
    \<and> isActive (bubbles (snd (addTo w p B (snd (addTo w p A s)))) A)
    \<and> isActive (bubbles (snd (addTo w p B (snd (addTo w p A s)))) B)
    \<and> visible (bubbles (remove B (snd (addTo w p B (snd (addTo w p A s))))) A)
    \<and> isActive (bubbles (remove B (snd (addTo w p B (snd (addTo w p A s))))) A)
    \<and> \<not> isActive (bubbles (remove B (snd (addTo w p B (snd (addTo w p A s))))) B)
    \<and> activeBubble (remove B (snd (addTo w p B (snd (addTo w p A s))))) A = Some A"
proof -
  let ?k = "targetId (bubbles s A)"
  let ?st = "removeAll B (removeAll A (activeBubbles s ?k))"
  let ?s1 = "snd (addTo w p A s)"
  let ?s2 = "snd (addTo w p B ?s1)"
  let ?s3 = "remove B ?s2"
  note P1 = addTo_detached [OF dA spA]
  have dB1: "parent (bubbles ?s1 B) = None"
    using P1(2) [of p B] AB dB by simp
  have spB1: "characterSprites w (targetCharacter (bubbles ?s1 B)) \<noteq> None"
    using spB by (simp add: addTo_frame)
  have kB1: "targetId (bubbles ?s1 B) = ?k" and kA1: "targetId (bubbles ?s1 A) = ?k"
    using same by (simp_all add: addTo_targetId)
  note P2 = addTo_detached [OF dB1 spB1]
  have st1: "activeBubbles ?s1 ?k = removeAll A (activeBubbles s ?k) @ [A]"
    using P1(3) [of p ?k] by simp
  have rm1: "removeAll B (activeBubbles ?s1 ?k) = ?st @ [A]"
    using AB by (simp add: st1)
  have st2: "activeBubbles ?s2 ?k = ?st @ [A, B]"
    using P2(3) [of p ?k] by (simp add: kB1 rm1)
  have pA2: "parent (bubbles ?s2 A) = Some p"
    using P2(2) [of p A] P1(2) [of p A] AB by simp
  have pB2: "parent (bubbles ?s2 B) = Some p"
    using P2(2) [of p B] by simp
  have vA2: "\<not> visible (bubbles ?s2 A)"
    using P2(4) [of p A] AB by (simp add: kB1 rm1)
  have vB2: "visible (bubbles ?s2 B)"
    using P2(4) [of p B] by simp
  have aB2: "parent (bubbles ?s2 B) \<noteq> None" using pB2 by simp
  note P3 = remove_attached [OF aB2]
  have kB2: "targetId (bubbles ?s2 B) = ?k" and kA2: "targetId (bubbles ?s2 A) = ?k"
    using kB1 kA1 by (simp_all add: addTo_targetId)
  have rm2: "removeAll B (activeBubbles ?s2 ?k) = ?st @ [A]"
    using AB by (simp add: st2)
  have st3: "activeBubbles ?s3 ?k = ?st @ [A]"
    using P3(2) [of ?k] by (simp add: kB2 rm2)
  have vA3: "visible (bubbles ?s3 A)"
    using P3(3) [of A] by (simp add: kB2 rm2)
  have pA3: "parent (bubbles ?s3 A) = Some p"
    using P3(1) [of A] AB pA2 by simp
  have pB3: "parent (bubbles ?s3 B) = None"
    using P3(1) [of B] by simp
  have top3: "activeBubble ?s3 A = Some A"
    using kA2 st3 by (simp add: activeBubble_def activeBubbles_of_def remove_targetId)
  show ?thesis
    using P1(1) P2(1) vA2 vB2 pA2 pB2 vA3 pA3 pB3 top3 by (simp add: isActive_def)
qed

theorem lifo_resume_witness:
  "(0::nat) \<noteq> 1
   \<and> targetId (bubbles demo_two 0) = targetId (bubbles demo_two 1)
   \<and> parent (bubbles demo_two 0) = None \<and> parent (bubbles demo_two 1) = None
   \<and> characterSprites demo_world (targetCharacter (bubbles demo_two 0)) \<noteq> None
   \<and> characterSprites demo_world (targetCharacter (bubbles demo_two 1)) \<noteq> None
   \<and> \<not> visible (bubbles (snd (addTo demo_world 1 1 (snd (addTo demo_world 1 0 demo_two)))) 0)
   \<and> visible (bubbles (snd (addTo demo_world 1 1 (snd (addTo demo_world 1 0 demo_two)))) 1)
   \<and> visible (bubbles (remove 1 (snd (addTo demo_world 1 1 (snd (addTo demo_world 1 0 demo_two))))) 0)
   \<and> isActive (bubbles (remove 1 (snd (addTo demo_world 1 1 (snd (addTo demo_world 1 0 demo_two))))) 0)"
proof -
  have h: "(0::nat) \<noteq> 1"
    "targetId (bubbles demo_two 0) = targetId (bubbles demo_two 1)"
    "parent (bubbles demo_two 0) = None" "parent (bubbles demo_two 1) = None"
    "characterSprites demo_world (targetCharacter (bubbles demo_two 0)) \<noteq> None"
    "characterSprites demo_world (targetCharacter (bubbles demo_two 1)) \<noteq> None"
    by (simp_all add: demo_two_def initialize_Some targetId_def demo_world_def initial_state_def)
  show ?thesis
    using h lifo_resume [OF h, of 1] by simp
qed

text \<open>
  C3, as amended. When the target of a show command resolves to no character
  (\<^verbatim>\<open>undefined\<close>, \<^verbatim>\<open>null\<close> or any other value that is not one), the constructor throws a
  \<^verbatim>\<open>TypeError\<close> out of the command: no bubble is constructed or attached, no timer is set
  and no wait mode is entered; only \<open>currentInterpreter\<close> has been assigned.
\<close>

theorem show_without_target_throws:
  assumes "\<forall>c. command_target w this a \<noteq> Character c"
  shows "command_show w this a s = (Some TypeError, s\<lparr>currentInterpreter := Some this\<rparr>)"
  using assms by (simp add: command_show_def showBubble_def initialize_None)

theorem show_without_target_throws_witness:
  "command_target demo_world 0 (demo_args\<lparr>targetSelector := ''Event'', targetSelectorId := ''3''\<rparr>)
       = Undefined
   \<and> command_show demo_world 0 (demo_args\<lparr>targetSelector := ''Event'', targetSelectorId := ''3''\<rparr>)
         initial_state
       = (Some TypeError, initial_state\<lparr>currentInterpreter := Some 0\<rparr>)"
proof -
  have h: "command_target demo_world 0
       (demo_args\<lparr>targetSelector := ''Event'', targetSelectorId := ''3''\<rparr>) = Undefined"
    by (simp add: eval_defs)
  show ?thesis
    using h show_without_target_throws
      [of demo_world 0 "demo_args\<lparr>targetSelector := ''Event'', targetSelectorId := ''3''\<rparr>"
          initial_state]
    by simp
qed

text \<open>
  The claim as stated (no exception, a bubble is constructed) fails for a follower index
  out of range.
\<close>

theorem silent_no_op_counterexample:
  "command_target demo_world 0 (demo_args\<lparr>targetSelector := ''Follower'', targetSelectorId := ''9''\<rparr>)
       = Undefined
   \<and> fst (command_show demo_world 0 (demo_args\<lparr>targetSelector := ''Follower'', targetSelectorId := ''9''\<rparr>)
         initial_state) = Some TypeError
   \<and> nextBubble (snd (command_show demo_world 0
         (demo_args\<lparr>targetSelector := ''Follower'', targetSelectorId := ''9''\<rparr>) initial_state)) = 0"
  by (simp add: eval_defs)

text \<open>
  C4. After a blocking show command whose target has a sprite, the wait predicate of the
  interpreter, in the wait mode the command has set, is true at once. In every run that
  follows without another blocking command, the predicate is the \<open>isActive\<close> of the
  command's bubble: true as long as less than the timer's delay has passed, false once it
  has passed.
\<close>

theorem blocking_wait:
  assumes re: "reachable s"
    and tg: "command_target w i a = Character c"
    and sp: "characterSprites w c \<noteq> None"
    and blk: "toLowerCase (isBlocking_arg a) = ''true''"
    and pos: "\<forall>st \<in> set steps. 0 \<le> passes st"
    and nb: "\<forall>st \<in> set steps. \<not> is_blocking st"
  shows
    "let r = snd (command_show w i a s);
         b = nextBubble s;
         D = timeout_delay (bubble_duration (Number_of w (durationMs a)) (textLength (bubbles r b)))
     in fst (command_show w i a s) = None
        \<and> waitMode r i = WAITMODE_BUBBLE
        \<and> blockingSpeechBubble r = Some b
        \<and> updateWaitMode host i r = (Inr True, r)
        \<and> updateWaitMode host i (run steps r) = (Inr (isActive (bubbles (run steps r) b)), run steps r)
        \<and> (elapsed steps < D \<longrightarrow> updateWaitMode host i (run steps r) = (Inr True, run steps r))
        \<and> (D \<le> elapsed steps \<and> (\<exists>st \<in> set steps. is_Elapse st)
             \<longrightarrow> updateWaitMode host i (run steps r) = (Inr False, run steps r))"
proof -
  let ?s = "s\<lparr>currentInterpreter := Some i\<rparr>"
  let ?r = "snd (command_show w i a s)"
  let ?b = "nextBubble s"
  note E = command_show_expiry [OF re tg sp pos]
  have cs: "command_show w i a s
      = showBubble w (arg_text a) (Character c) (Number_of w (durationMs a)) True ?s"
    using tg blk by (simp add: command_show_def Let_def)
  have wm: "waitMode ?r i = WAITMODE_BUBBLE"
    unfolding cs using showBubble_ok(5) [OF sp, of True ?s i] by simp
  have bl: "blockingSpeechBubble ?r = Some ?b"
    unfolding cs using showBubble_ok(4) [OF sp, of True] by simp
  have keep: "blockingSpeechBubble (run steps ?r) = Some ?b" "waitMode (run steps ?r) i = WAITMODE_BUBBLE"
    using wait_fields_run [OF nb, of ?r] wm bl by simp_all
  have u0: "updateWaitMode host i ?r = (Inr True, ?r)"
    using wm bl E(4) by (simp add: updateWaitMode_def isActive_def)
  have u: "updateWaitMode host i (run steps ?r) = (Inr (isActive (bubbles (run steps ?r) ?b)), run steps ?r)"
    using keep by (simp add: updateWaitMode_def)
  show ?thesis
    unfolding Let_def u
    using E(3) E(5) E(6) wm bl u0 by (auto simp: isActive_def)
qed

theorem blocking_wait_witness:
  "reachable initial_state
   \<and> command_target demo_world 0 demo_args = Character (Game_Event 7)
   \<and> characterSprites demo_world (Game_Event 7) \<noteq> None
   \<and> toLowerCase (isBlocking_arg demo_args) = ''true''
   \<and> 0 \<le> passes (Tick demo_world) \<and> 0 \<le> passes (Elapse 1499) \<and> 0 \<le> passes (Elapse 1500)
   \<and> \<not> is_blocking (Tick demo_world) \<and> \<not> is_blocking (Elapse 1499) \<and> \<not> is_blocking (Elapse 1500)
   \<and> updateWaitMode (\<lambda>i s. (Inr False, s)) 0 demo_shown = (Inr True, demo_shown)
   \<and> updateWaitMode (\<lambda>i s. (Inr False, s)) 0 (run [Tick demo_world, Elapse 1499] demo_shown)
       = (Inr True, run [Tick demo_world, Elapse 1499] demo_shown)
   \<and> updateWaitMode (\<lambda>i s. (Inr False, s)) 0 (run [Elapse 1500] demo_shown)
       = (Inr False, run [Elapse 1500] demo_shown)"
proof -
  have p1: "\<forall>st \<in> set [Tick demo_world, Elapse 1499]. 0 \<le> passes st" by simp
  have p2: "\<forall>st \<in> set [Elapse 1500]. 0 \<le> passes st" by simp
  have n1: "\<forall>st \<in> set [Tick demo_world, Elapse 1499]. \<not> is_blocking st" by simp
  have n2: "\<forall>st \<in> set [Elapse 1500]. \<not> is_blocking st" by simp
  note t1 = blocking_wait [OF demo_hyps p1 n1, of "\<lambda>i s. (Inr False, s)",
      unfolded Let_def demo_shown_def [symmetric]]
  note t2 = blocking_wait [OF demo_hyps p2 n2, of "\<lambda>i s. (Inr False, s)",
      unfolded Let_def demo_shown_def [symmetric]]
  have lt: "elapsed [Tick demo_world, Elapse 1499]
      < timeout_delay (bubble_duration (Number_of demo_world (durationMs demo_args))
          (textLength (bubbles demo_shown (nextBubble initial_state))))"
    by (simp add: demo_shown_eval elapsed_def)
  have ge: "timeout_delay (bubble_duration (Number_of demo_world (durationMs demo_args))
          (textLength (bubbles demo_shown (nextBubble initial_state)))) \<le> elapsed [Elapse 1500]
        \<and> (\<exists>st \<in> set [Elapse 1500]. is_Elapse st)"
    by (simp add: demo_shown_eval elapsed_def)
  have a: "updateWaitMode (\<lambda>i s. (Inr False, s)) 0 demo_shown = (Inr True, demo_shown)"
    using t1 by blast
  have b: "updateWaitMode (\<lambda>i s. (Inr False, s)) 0 (run [Tick demo_world, Elapse 1499] demo_shown)
       = (Inr True, run [Tick demo_world, Elapse 1499] demo_shown)"
    using t1 lt by blast
  have c: "updateWaitMode (\<lambda>i s. (Inr False, s)) 0 (run [Elapse 1500] demo_shown)
       = (Inr False, run [Elapse 1500] demo_shown)"
    using t2 ge by blast
  show ?thesis using a b c demo_hyps by simp
qed

text \<open>
  C5. A show command whose target has a sprite, run in a reachable state, constructs the
  bubble \<open>b\<close>, attaches it and queues one timer for it. The delay handed to the timer is
  \<^verbatim>\<open>durationMs\<close> when that is a number other than 0, and 150 times the counted
  characters when it is 0. In every run of commands, scene changes, animation updates and
  passing time that follows, the bubble is attached as long as less than the delay has
  passed, and detached once the delay has passed.
\<close>

theorem auto_duration:
  assumes re: "reachable s"
    and tg: "command_target w i a = Character c"
    and sp: "characterSprites w c \<noteq> None"
    and pos: "\<forall>st \<in> set steps. 0 \<le> passes st"
  shows
    "let r = snd (command_show w i a s);
         b = nextBubble s;
         len = textLength (bubbles r b);
         duration = Number_of w (durationMs a);
         D = timeout_delay (bubble_duration duration len)
     in len = (\<Sum>e\<leftarrow>flushed w (arg_text a). int (length (buffer e)) - (if rtl e then 1 else 0))
        \<and> (\<forall>d. duration = Num d \<and> d \<noteq> 0 \<longrightarrow> bubble_duration duration len = Num d)
        \<and> (duration = Num 0 \<longrightarrow> bubble_duration duration len = Num (of_int len * 150))
        \<and> timeouts r = timeouts s @ [(now s + D, b)]
        \<and> isActive (bubbles r b)
        \<and> (elapsed steps < D \<longrightarrow> isActive (bubbles (run steps r) b))
        \<and> (D \<le> elapsed steps \<and> (\<exists>st \<in> set steps. is_Elapse st)
             \<longrightarrow> \<not> isActive (bubbles (run steps r) b))"
proof -
  note E = command_show_expiry [OF re tg sp pos]
  have d: "bubble_duration (Num d) n = Num d" if "d \<noteq> 0" for d n
    using that by (simp add: bubble_duration_def or_else_def truthy_def)
  have z: "bubble_duration (Num 0) n = Num (of_int n * 150)" for n
    by (simp add: bubble_duration_def or_else_def truthy_def)
  show ?thesis
    unfolding Let_def isActive_def
    using E(1) E(2) E(4) E(5) E(6) d z by auto
qed

theorem auto_duration_witness:
  "reachable initial_state
   \<and> command_target demo_world 0 demo_args = Character (Game_Event 7)
   \<and> characterSprites demo_world (Game_Event 7) \<noteq> None
   \<and> 0 \<le> passes (Tick demo_world) \<and> 0 \<le> passes (Elapse 1499)
   \<and> 0 \<le> passes (Elapse 1000) \<and> 0 \<le> passes (Elapse 500)
   \<and> textLength (bubbles demo_shown 0) = 10
   \<and> timeouts demo_shown = [(1500, 0)]
   \<and> isActive (bubbles (run [Tick demo_world, Elapse 1499] demo_shown) 0)
   \<and> \<not> isActive (bubbles (run [Elapse 1000, Tick demo_world, Elapse 500] demo_shown) 0)"
proof -
  have p1: "\<forall>st \<in> set [Tick demo_world, Elapse 1499]. 0 \<le> passes st" by simp
  have p2: "\<forall>st \<in> set [Elapse 1000, Tick demo_world, Elapse 500]. 0 \<le> passes st" by simp
  note t1 = auto_duration [OF demo_hyps(1,2,3) p1, unfolded Let_def demo_shown_def [symmetric]]
  note t2 = auto_duration [OF demo_hyps(1,2,3) p2, unfolded Let_def demo_shown_def [symmetric]]
  have a: "isActive (bubbles (run [Tick demo_world, Elapse 1499] demo_shown) 0)"
    using t1 by (simp add: demo_shown_eval elapsed_def)
  have b: "\<not> isActive (bubbles (run [Elapse 1000, Tick demo_world, Elapse 500] demo_shown) 0)"
    using t2 by (simp add: demo_shown_eval elapsed_def)
  have c: "timeouts demo_shown = [(1500, 0)]"
    using t1 by (simp add: demo_shown_eval)
  show ?thesis using a b c demo_hyps by (simp add: demo_shown_eval)
qed




text \<open>
  C7. When the measured width and height of a text are nonnegative integers (and, with
  the padding, below \<open>2\<^sup>5\<^sup>3\<close>, where doubles hold every integer), each side of the rectangle
  that \<open>getRectForText\<close> computes, and with it of the bubble the constructor builds, is the
  measured size plus twice the window padding, plus one when that sum is odd (minus one
  when it is odd and negative, which takes a negative padding). Both sides are even
  integers, each at least twice the window padding.
\<close>

theorem geometry_even:
  assumes "textSizeEx w txt = (Num (of_int i), Num (of_int j))" and "0 \<le> i" and "0 \<le> j"
    and "i + 2 * \<bar>windowPadding w\<bar> < 2 ^ 53" and "j + 2 * \<bar>windowPadding w\<bar> < 2 ^ 53"
  shows "let p = windowPadding w;
             m = i + 2 * p + (if even i then 0 else if 0 \<le> i + 2 * p then 1 else - 1);
             n = j + 2 * p + (if even j then 0 else if 0 \<le> j + 2 * p then 1 else - 1)
         in getRectForText w txt = (Num (of_int m), Num (of_int n))
          \<and> width (bubbles (snd (initialize w (Character c) txt s)) (nextBubble s)) = Num (of_int m)
          \<and> height (bubbles (snd (initialize w (Character c) txt s)) (nextBubble s)) = Num (of_int n)
          \<and> even m \<and> even n \<and> 2 * p \<le> m \<and> 2 * p \<le> n"
proof -
  let ?p = "windowPadding w"
  let ?m = "i + 2 * ?p + (if even i then 0 else if 0 \<le> i + 2 * ?p then 1 else - 1)"
  let ?n = "j + 2 * ?p + (if even j then 0 else if 0 \<le> j + 2 * ?p then 1 else - 1)"
  have r: "getRectForText w txt = (Num (of_int ?m), Num (of_int ?n))"
    using assms(1) rect_dimension [OF assms(2,4)] rect_dimension [OF assms(3,5)]
    by (simp add: getRectForText_def Let_def)
  have oi: "odd i \<Longrightarrow> 1 \<le> i" using assms(2) by (cases "i = 0") auto
  have oj: "odd j \<Longrightarrow> 1 \<le> j" using assms(3) by (cases "j = 0") auto
  have e: "even ?m" "even ?n" by simp_all
  have g: "2 * ?p \<le> ?m" "2 * ?p \<le> ?n" using assms(2,3) oi oj by auto
  show ?thesis
    unfolding Let_def using r e g by (simp add: initialize_Some)
qed

theorem geometry_even_witness:
  "textSizeEx demo_world ''Fine weather today!'' = (Num (of_int 209), Num (of_int 35))
   \<and> (0::int) \<le> 209 \<and> (0::int) \<le> 35
   \<and> 209 + 2 * \<bar>windowPadding demo_world\<bar> < 2 ^ 53
   \<and> 35 + 2 * \<bar>windowPadding demo_world\<bar> < 2 ^ 53
   \<and> getRectForText demo_world ''Fine weather today!'' = (Num 234, Num 60)
   \<and> width (bubbles (snd (initialize demo_world (Character Game_Player) ''Fine weather today!''
         initial_state)) (nextBubble initial_state)) = Num 234
   \<and> height (bubbles (snd (initialize demo_world (Character Game_Player) ''Fine weather today!''
         initial_state)) (nextBubble initial_state)) = Num 60"
proof -
  have h: "textSizeEx demo_world ''Fine weather today!'' = (Num (of_int 209), Num (of_int 35))"
    "(0::int) \<le> 209" "(0::int) \<le> 35"
    "209 + 2 * \<bar>windowPadding demo_world\<bar> < 2 ^ 53"
    "35 + 2 * \<bar>windowPadding demo_world\<bar> < 2 ^ 53"
    by (simp_all add: demo_world_def)
  have p: "windowPadding demo_world = 12" by (simp add: demo_world_def)
  show ?thesis
    using h geometry_even [OF h, of Game_Player initial_state]
    unfolding Let_def p by simp
qed

text \<open>
  C8. Attaching a bubble that already has a parent and detaching a bubble that has none
  return at once and leave the state as it is; so a second \<open>addTo\<close> or \<open>remove\<close> of the same
  bubble changes nothing after the first, and neither does a second \<open>terminate\<close>, which
  finds \<open>speechBubbles\<close> empty.
\<close>

theorem attach_detach_idempotent:
  "(parent (bubbles s b) \<noteq> None \<longrightarrow> addTo w p b s = (None, s))
   \<and> (parent (bubbles s b) = None \<longrightarrow> remove b s = s)
   \<and> snd (addTo w p b (snd (addTo w p b s))) = snd (addTo w p b s)
   \<and> remove b (remove b s) = remove b s
   \<and> terminate (terminate s) = terminate s"
proof -
  have a: "snd (addTo w p b (snd (addTo w p b s))) = snd (addTo w p b s)"
  proof (cases "parent (bubbles s b) = None")
    case False
    then show ?thesis by (simp add: addTo_attached)
  next
    case True
    show ?thesis
    proof (cases "characterSprites w (targetCharacter (bubbles s b)) = None")
      case True
      with \<open>parent (bubbles s b) = None\<close> show ?thesis by (simp add: addTo_no_sprite)
    next
      case False
      have "parent (bubbles (snd (addTo w p b s)) b) \<noteq> None"
        using addTo_detached(2) [OF True False, of p b] by simp
      then show ?thesis by (simp add: addTo_attached)
    qed
  qed
  have r: "remove b (remove b s) = remove b s"
    by (rule remove_detached) (simp add: remove_parent)
  have t: "terminate (terminate s) = terminate s"
    by (simp add: terminate_def fold_remove_speechBubbles)
  show ?thesis using a r t by (simp add: addTo_attached remove_detached)
qed

theorem attach_detach_idempotent_witness:
  "parent (bubbles demo_shown 0) \<noteq> None
   \<and> addTo demo_world 1 0 demo_shown = (None, demo_shown)
   \<and> parent (bubbles initial_state 0) = None
   \<and> remove 0 initial_state = initial_state
   \<and> remove 0 (remove 0 demo_shown) = remove 0 demo_shown
   \<and> terminate (terminate demo_shown) = terminate demo_shown"
proof -
  have h: "parent (bubbles demo_shown 0) \<noteq> None" "parent (bubbles initial_state 0) = None"
    by (simp_all add: demo_shown_def demo_show) (simp add: initial_state_def no_bubble_def)
  show ?thesis
    using h attach_detach_idempotent [of demo_shown 0 demo_world 1]
      attach_detach_idempotent [of initial_state 0 demo_world 1]
    by simp
qed

text \<open>
  C9. The show command reads \<^verbatim>\<open>$gameMap._events[args.targetSelector]\<close> whenever the entry
  that the selector picks is falsy, \<^verbatim>\<open>undefined\<close> and \<^verbatim>\<open>null\<close> in particular, and takes the
  entry itself whenever it is truthy. The entry of a recognized selector is its handle
  (for \<^verbatim>\<open>Follower\<close> the follower under the key \<^verbatim>\<open>targetSelectorId\<close>, for \<^verbatim>\<open>Event\<close> the
  event under it, and so on), so a recognized selector with a falsy handle falls back
  just as an unrecognized one does.
\<close>

theorem fallback_on_falsy_handle:
  "let sel = targetSelector a;
       k = targetSelectorId a;
       var = (if truthy_value (variables w k) then variables w k else Number (Num 0));
       handle =
         (if sel = ''This event'' then map_events w (ToString w (interpreter_eventId w this))
          else if sel = ''Player'' then Character Game_Player
          else if sel = ''Event'' then map_events w k
          else if sel = ''Event by variable'' then map_events w (ToString w var)
          else if sel = ''Follower'' then followers w k
          else if sel = ''Follower by variable'' then followers w (ToString w var)
          else Object_prototype w sel)
   in (handle = Undefined \<or> handle = Null \<longrightarrow> command_target w this a = map_events w sel)
    \<and> (\<not> truthy_value handle \<longrightarrow> command_target w this a = map_events w sel)
    \<and> (truthy_value handle \<longrightarrow> command_target w this a = handle)
    \<and> getEventById w (Str sel) = map_events w sel"
  unfolding command_target_handle [of w this a] Let_def
  by (auto simp: truthy_value_def getEventById_def ToString_Str)


theorem fallback_on_falsy_handle_witness:
  "followers demo_tagged_world ''9'' = Undefined
   \<and> map_events demo_tagged_world ''Follower'' = Character (Game_Event 7)
   \<and> command_target demo_tagged_world 0
         (demo_args\<lparr>targetSelector := ''Follower'', targetSelectorId := ''9''\<rparr>)
       = Character (Game_Event 7)
   \<and> map_events demo_world ''Follower'' = Undefined
   \<and> command_target demo_world 0
         (demo_args\<lparr>targetSelector := ''Follower'', targetSelectorId := ''9''\<rparr>)
       = Undefined
   \<and> followers demo_world ''length'' = Number (Num 3)
   \<and> command_target demo_world 0
         (demo_args\<lparr>targetSelector := ''Follower'', targetSelectorId := ''length''\<rparr>)
       = Number (Num 3)
   \<and> Object_prototype demo_world ''7'' = Undefined
   \<and> command_target demo_world 0 (demo_args\<lparr>targetSelector := ''7''\<rparr>) = Character (Game_Event 7)"
proof -
  let ?a = "demo_args\<lparr>targetSelector := ''Follower'', targetSelectorId := ''9''\<rparr>"
  let ?l = "demo_args\<lparr>targetSelector := ''Follower'', targetSelectorId := ''length''\<rparr>"
  let ?e = "demo_args\<lparr>targetSelector := ''7''\<rparr>"
  have h: "followers demo_tagged_world ''9'' = Undefined"
    "map_events demo_tagged_world ''Follower'' = Character (Game_Event 7)"
    "followers demo_world ''9'' = Undefined"
    "map_events demo_world ''Follower'' = Undefined"
    "followers demo_world ''length'' = Number (Num 3)"
    "Object_prototype demo_world ''7'' = Undefined"
    "map_events demo_world ''7'' = Character (Game_Event 7)"
    by (simp_all add: demo_tagged_world_def demo_world_def array_property_def object_property_def
        Object_prototype_names_def Array_prototype_names_def)
  have s: "targetSelector ?a = ''Follower''" "targetSelectorId ?a = ''9''"
    "targetSelector ?l = ''Follower''" "targetSelectorId ?l = ''length''"
    "targetSelector ?e = ''7''"
    by simp_all
  note t1 = fallback_on_falsy_handle [of ?a demo_tagged_world 0, unfolded Let_def s]
  note t2 = fallback_on_falsy_handle [of ?a demo_world 0, unfolded Let_def s]
  note t3 = fallback_on_falsy_handle [of ?l demo_world 0, unfolded Let_def s]
  note t4 = fallback_on_falsy_handle [of ?e demo_world 0, unfolded Let_def s]
  have 1: "command_target demo_tagged_world 0 ?a = Character (Game_Event 7)"
    using t1 h by simp
  have 2: "command_target demo_world 0 ?a = Undefined"
    using t2 h by simp
  have 3: "command_target demo_world 0 ?l = Number (Num 3)"
    using t3 h by (simp add: truthy_value_def truthy_def)
  have 4: "command_target demo_world 0 ?e = Character (Game_Event 7)"
    using t4 h by simp
  show ?thesis using h 1 2 3 4 by simp
qed

text \<open>
  C10. When \<^verbatim>\<open>Number(args.durationMs)\<close> is \<open>NaN\<close>, the show command returns the same result
  and state as the command with a \<^verbatim>\<open>durationMs\<close> that converts to 0. When its target has a
  sprite, and the state is reachable, it queues one timer for its bubble, due 150 ms for
  each counted character after the call; in every run that follows the bubble is attached
  as long as less than that has passed, and detached once it has passed.
\<close>

theorem NaN_duration_is_auto:
  assumes nan: "Number_of w (durationMs a) = NaN" and zero: "Number_of w zero = Num 0"
  shows "command_show w i a s = command_show w i (a\<lparr>durationMs := zero\<rparr>) s
    \<and> (reachable s \<and> command_target w i a = Character c \<and> characterSprites w c \<noteq> None
         \<and> (\<forall>st \<in> set steps. 0 \<le> passes st)
       \<longrightarrow> (let r = snd (command_show w i a s);
                 b = nextBubble s;
                 len = (\<Sum>e\<leftarrow>flushed w (arg_text a). int (length (buffer e)) - (if rtl e then 1 else 0));
                 D = max 0 (of_int len * 150)
             in fst (command_show w i a s) = None
              \<and> textLength (bubbles r b) = len
              \<and> timeouts r = timeouts s @ [(now s + D, b)]
              \<and> isActive (bubbles r b)
              \<and> (elapsed steps < D \<longrightarrow> isActive (bubbles (run steps r) b))
              \<and> (D \<le> elapsed steps \<and> (\<exists>st \<in> set steps. is_Elapse st)
                   \<longrightarrow> \<not> isActive (bubbles (run steps r) b))))"
proof -
  have bd: "bubble_duration NaN = bubble_duration (Num 0)"
    by (rule ext) (simp add: bubble_duration_def or_else_def truthy_def)
  have sb: "showBubble w t target NaN blk s' = showBubble w t target (Num 0) blk s'"
    for t target blk s'
    unfolding showBubble_def bd ..
  have ct: "command_target w i (a\<lparr>durationMs := zero\<rparr>) = command_target w i a"
    by (simp add: command_target_def selected_def selector_table_def)
  have eq: "command_show w i a s = command_show w i (a\<lparr>durationMs := zero\<rparr>) s"
    using assms sb ct by (simp add: command_show_def)
  have D: "timeout_delay (bubble_duration (Number_of w (durationMs a)) n) = max 0 (of_int n * 150)" for n
    using nan by (simp add: bubble_duration_def or_else_def truthy_def timeout_delay_def)
  have run: "let r = snd (command_show w i a s);
                 b = nextBubble s;
                 len = (\<Sum>e\<leftarrow>flushed w (arg_text a). int (length (buffer e)) - (if rtl e then 1 else 0));
                 D = max 0 (of_int len * 150)
             in fst (command_show w i a s) = None
              \<and> textLength (bubbles r b) = len
              \<and> timeouts r = timeouts s @ [(now s + D, b)]
              \<and> isActive (bubbles r b)
              \<and> (elapsed steps < D \<longrightarrow> isActive (bubbles (run steps r) b))
              \<and> (D \<le> elapsed steps \<and> (\<exists>st \<in> set steps. is_Elapse st)
                   \<longrightarrow> \<not> isActive (bubbles (run steps r) b))"
    if re: "reachable s" and tg: "command_target w i a = Character c"
      and sp: "characterSprites w c \<noteq> None" and pos: "\<forall>st \<in> set steps. 0 \<le> passes st"
  proof -
    note E = command_show_expiry [OF re tg sp pos]
    show ?thesis
      unfolding Let_def isActive_def
      using E(1) E(2) E(3) E(4) E(5) E(6) unfolding D by auto
  qed
  show ?thesis using eq run by blast
qed

theorem NaN_duration_is_auto_witness:
  "Number_of demo_world (durationMs (demo_args\<lparr>durationMs := ''soon''\<rparr>)) = NaN
   \<and> Number_of demo_world ''0'' = Num 0
   \<and> reachable initial_state
   \<and> command_target demo_world 0 (demo_args\<lparr>durationMs := ''soon''\<rparr>) = Character (Game_Event 7)
   \<and> characterSprites demo_world (Game_Event 7) \<noteq> None
   \<and> 0 \<le> passes (Tick demo_world) \<and> 0 \<le> passes (Elapse 1499)
   \<and> 0 \<le> passes (Elapse 1000) \<and> 0 \<le> passes (Elapse 500)
   \<and> command_show demo_world 0 (demo_args\<lparr>durationMs := ''soon''\<rparr>) initial_state
       = command_show demo_world 0 (demo_args\<lparr>durationMs := ''soon'', durationMs := ''0''\<rparr>) initial_state
   \<and> textLength (bubbles (snd (command_show demo_world 0 (demo_args\<lparr>durationMs := ''soon''\<rparr>)
         initial_state)) 0) = 10
   \<and> timeouts (snd (command_show demo_world 0 (demo_args\<lparr>durationMs := ''soon''\<rparr>) initial_state))
       = [(1500, 0)]
   \<and> isActive (bubbles (run [Tick demo_world, Elapse 1499]
         (snd (command_show demo_world 0 (demo_args\<lparr>durationMs := ''soon''\<rparr>) initial_state))) 0)
   \<and> \<not> isActive (bubbles (run [Elapse 1000, Tick demo_world, Elapse 500]
         (snd (command_show demo_world 0 (demo_args\<lparr>durationMs := ''soon''\<rparr>) initial_state))) 0)"
proof -
  let ?a = "demo_args\<lparr>durationMs := ''soon''\<rparr>"
  have h: "Number_of demo_world (durationMs ?a) = NaN" "Number_of demo_world ''0'' = Num 0"
    by (simp_all add: demo_world_def demo_args_def)
  have g: "reachable initial_state"
    "command_target demo_world 0 ?a = Character (Game_Event 7)"
    "characterSprites demo_world (Game_Event 7) \<noteq> None"
    using demo_hyps(1,3) by (simp_all add: eval_defs)
  have len: "(\<Sum>e\<leftarrow>flushed demo_world (arg_text ?a). int (length (buffer e)) - (if rtl e then 1 else 0)) = 10"
    by (simp add: demo_world_def demo_args_def)
  have i: "nextBubble initial_state = 0" "now initial_state = 0" "timeouts initial_state = []"
    by (simp_all add: initial_state_def)
  have p1: "\<forall>st \<in> set [Tick demo_world, Elapse 1499]. 0 \<le> passes st" by simp
  have p2: "\<forall>st \<in> set [Elapse 1000, Tick demo_world, Elapse 500]. 0 \<le> passes st" by simp
  note t1 = NaN_duration_is_auto [OF h, of 0 initial_state "Game_Event 7" "[Tick demo_world, Elapse 1499]",
      unfolded Let_def len i]
  note t2 = NaN_duration_is_auto [OF h, of 0 initial_state "Game_Event 7"
      "[Elapse 1000, Tick demo_world, Elapse 500]", unfolded Let_def len i]
  have e: "command_show demo_world 0 ?a initial_state
       = command_show demo_world 0 (?a\<lparr>durationMs := ''0''\<rparr>) initial_state"
    using conjunct1 [OF t1] by simp
  have a: "textLength (bubbles (snd (command_show demo_world 0 ?a initial_state)) 0) = 10"
    "timeouts (snd (command_show demo_world 0 ?a initial_state)) = [(1500, 0)]"
    "isActive (bubbles (run [Tick demo_world, Elapse 1499]
         (snd (command_show demo_world 0 ?a initial_state))) 0)"
    using conjunct2 [OF t1] g p1 by (simp_all add: elapsed_def)
  have b: "\<not> isActive (bubbles (run [Elapse 1000, Tick demo_world, Elapse 500]
         (snd (command_show demo_world 0 ?a initial_state))) 0)"
    using conjunct2 [OF t2] g p2 by (simp add: elapsed_def)
  show ?thesis using h g e a b by simp
qed

end
